theory Spec2Isabelle
  imports Main "HOL-Library.Sublist" "HOL-Library.AList"
begin

section \<open>Tables, rows and cells\<close>

text \<open>
  The pipeline of \<^verbatim>\<open>tcgcsv_pokemon_pipeline.py\<close> moves pandas frames between a remote
  source and parquet files below one base directory. A frame is modelled by the list of
  its rows and a row by the dictionary of its non-null cells: \<open>r c = None\<close> says that
  the row has no value (NaN) in column \<open>c\<close>. A calendar day is the number of the day;
  the text \<^verbatim>\<open>YYYY-MM-DD\<close> that \<^verbatim>\<open>strftime\<close> prints for it is the cell \<open>DayC d\<close>
  (the text determines the day, and texts sort as days do).
\<close>

type_synonym day = int

datatype cell = IntC int | StrC string | DayC day | OtherC nat

type_synonym row = "string \<rightharpoonup> cell"
type_synonym frame = "row list"

text \<open>A JSON object as it is parsed: its items in order, \<open>None\<close> for \<^verbatim>\<open>null\<close>.\<close>

type_synonym json_obj = "(string \<times> cell option) list"

definition PRUNE_COLS :: "string set" where
  "PRUNE_COLS = {''url'', ''image_url'', ''image_count'', ''modified_on_x'',
     ''presale_is_presale'', ''presale_released_on'', ''presale_note'',
     ''modified_on_y'', ''extended_data'', ''attack_3'', ''attack_4'', ''attack_5''}"

subsection \<open>Helpers\<close>

definition is_lower :: "char \<Rightarrow> bool" where
  "is_lower c = (97 \<le> (of_char c :: nat) \<and> (of_char c :: nat) \<le> 122)"

definition is_upper :: "char \<Rightarrow> bool" where
  "is_upper c = (65 \<le> (of_char c :: nat) \<and> (of_char c :: nat) \<le> 90)"

definition is_digit :: "char \<Rightarrow> bool" where
  "is_digit c = (48 \<le> (of_char c :: nat) \<and> (of_char c :: nat) \<le> 57)"

definition is_alnum :: "char \<Rightarrow> bool" where
  "is_alnum c = (is_lower c \<or> is_upper c \<or> is_digit c)"

definition lower_char :: "char \<Rightarrow> char" where
  "lower_char c = (if is_upper c then char_of ((of_char c :: nat) + 32) else c)"

text \<open>\<^verbatim>\<open>re.sub(r"([a-z0-9])([A-Z])", r"\1_\2", s)\<close>: the second character of a match is
  upper case and so never opens the next match.\<close>

fun camel_breaks :: "string \<Rightarrow> string" where
  "camel_breaks (a # b # cs) =
     (if (is_lower a \<or> is_digit a) \<and> is_upper b then a # CHR ''_'' # camel_breaks (b # cs)
      else a # camel_breaks (b # cs))"
| "camel_breaks cs = cs"

text \<open>\<^verbatim>\<open>re.sub(r"[^0-9a-zA-Z]+", "_", s)\<close>: each maximal run becomes one underscore.\<close>

function squeeze_runs :: "string \<Rightarrow> string" where
  "squeeze_runs [] = []"
| "squeeze_runs (c # cs) =
     (if is_alnum c then c # squeeze_runs cs
      else CHR ''_'' # squeeze_runs (dropWhile (\<lambda>x. \<not> is_alnum x) cs))"
  by pat_completeness auto
termination
  by (relation "measure length") (auto simp: less_Suc_eq_le length_dropWhile_le)

definition strip_underscores :: "string \<Rightarrow> string" where
  "strip_underscores s =
     rev (dropWhile (\<lambda>c. c = CHR ''_'') (rev (dropWhile (\<lambda>c. c = CHR ''_'') s)))"

definition to_snake :: "string \<Rightarrow> string" where
  "to_snake s = map lower_char (strip_underscores (squeeze_runs (camel_breaks s)))"

text \<open>Decimal text of a number, as an f-string or \<^verbatim>\<open>str\<close> prints it.\<close>

fun digits :: "nat \<Rightarrow> string" where
  "digits n = (if n < 10 then [char_of (48 + n)] else digits (n div 10) @ [char_of (48 + n mod 10)])"

definition str_of_int :: "int \<Rightarrow> string" where
  "str_of_int i = (if i < 0 then CHR ''-'' # digits (nat (- i)) else digits (nat i))"

text \<open>\<^verbatim>\<open>astype(str)\<close> on one cell; NaN prints as \<^verbatim>\<open>nan\<close>. Only the cells that occur in a
  group key are spelled out.\<close>

fun astype_str :: "cell option \<Rightarrow> string" where
  "astype_str None = ''nan''"
| "astype_str (Some (IntC i)) = str_of_int i"
| "astype_str (Some (StrC s)) = s"
| "astype_str (Some (DayC d)) = ''date:'' @ str_of_int d"
| "astype_str (Some (OtherC n)) = ''other:'' @ digits n"

subsection \<open>Frames\<close>

text \<open>A column is in a frame when some row has a value in it.\<close>

definition has_column :: "string \<Rightarrow> frame \<Rightarrow> bool" where
  "has_column c df = (\<exists>r \<in> set df. r c \<noteq> None)"

text \<open>\<^verbatim>\<open>df.empty\<close>: no row, or no column.\<close>

definition df_empty :: "frame \<Rightarrow> bool" where
  "df_empty df = (\<forall>r \<in> set df. r = Map.empty)"

text \<open>\<^verbatim>\<open>df.drop(columns=[c for c in df.columns if c in PRUNE_COLS], errors="ignore")\<close>\<close>

definition prune_row :: "row \<Rightarrow> row" where
  "prune_row r = (\<lambda>c. if c \<in> PRUNE_COLS then None else r c)"

definition drop_prune_cols :: "frame \<Rightarrow> frame" where
  "drop_prune_cols df = map prune_row df"

definition rename_row :: "string \<Rightarrow> string \<Rightarrow> row \<Rightarrow> row" where
  "rename_row old new r = (\<lambda>c. if c = new then r old else if c = old then None else r c)"

text \<open>\<^verbatim>\<open>df.rename(columns={old: new})\<close>; a frame without the column is left as it is.\<close>

definition rename_column :: "string \<Rightarrow> string \<Rightarrow> frame \<Rightarrow> frame" where
  "rename_column old new df = (if has_column old df then map (rename_row old new) df else df)"

text \<open>\<^verbatim>\<open>drop_duplicates(subset=..., keep="first")\<close>: \<open>key\<close> reads the subset of a row;
  with \<open>key = id\<close> whole rows are compared. Equal NaNs count as equal, as in pandas.\<close>

fun drop_duplicates :: "('a \<Rightarrow> 'k) \<Rightarrow> 'a list \<Rightarrow> 'a list" where
  "drop_duplicates key [] = []"
| "drop_duplicates key (x # xs) =
     x # drop_duplicates key (filter (\<lambda>y. key y \<noteq> key x) xs)"

text \<open>\<^verbatim>\<open>left.merge(right, on=..., how="left")\<close>: left rows in order, each once per
  matching right row, or once with nothing on the right.\<close>

definition merge_left :: "('a \<Rightarrow> 'b \<Rightarrow> bool) \<Rightarrow> 'a list \<Rightarrow> 'b list \<Rightarrow> ('a \<times> 'b option) list" where
  "merge_left on_keys left right =
     concat (map (\<lambda>l. case filter (on_keys l) right of
                          [] \<Rightarrow> [(l, None)]
                        | ms \<Rightarrow> map (\<lambda>r. (l, Some r)) ms) left)"

section \<open>Dimension Builder: flattening product records\<close>

text \<open>A product as the products endpoint returns it: its items other than
  \<^verbatim>\<open>presaleInfo\<close> and \<^verbatim>\<open>extendedData\<close>, the items of \<^verbatim>\<open>presaleInfo\<close>, and the
  \<^verbatim>\<open>(name, value)\<close> pairs of the \<^verbatim>\<open>extendedData\<close> list (a missing name is the empty
  text, as \<^verbatim>\<open>ext.get("name", "")\<close> reads it).\<close>

record product_json =
  items :: json_obj
  presaleInfo :: json_obj
  extendedData :: "(string \<times> cell option) list"

text \<open>\<^verbatim>\<open>flat[key] = val\<close>\<close>

definition assign :: "row \<Rightarrow> string \<Rightarrow> cell option \<Rightarrow> row" where
  "assign flat key val = flat(key := val)"

definition is_attack :: "string \<Rightarrow> bool" where
  "is_attack key = prefix ''attack'' key"

text \<open>The loop over \<^verbatim>\<open>prod.get("extendedData", [])\<close>, with its counter
  \<^verbatim>\<open>attacks_seen\<close>.\<close>

fun ext_loop :: "(string \<times> cell option) list \<Rightarrow> nat \<Rightarrow> row \<Rightarrow> row" where
  "ext_loop [] attacks_seen flat = flat"
| "ext_loop ((name, val) # exts) attacks_seen flat =
     (let key = to_snake name in
      if key = [] then ext_loop exts attacks_seen flat
      else if is_attack key then
        (let attacks_seen = attacks_seen + 1 in
         if attacks_seen > 2 then ext_loop exts attacks_seen flat
         else ext_loop exts attacks_seen (assign flat (''attack_'' @ digits attacks_seen) val))
      else ext_loop exts attacks_seen (assign flat key val))"

text \<open>A JSON object as a row, its keys in snake case.\<close>

definition snake_row :: "json_obj \<Rightarrow> row" where
  "snake_row obj = fold (\<lambda>(k, v) flat. assign flat (to_snake k) v) obj Map.empty"

definition top_level :: "product_json \<Rightarrow> row" where
  "top_level p = snake_row (items p)"

definition with_presale :: "product_json \<Rightarrow> row \<Rightarrow> row" where
  "with_presale p flat0 =
     fold (\<lambda>(k, v) flat. assign flat (to_snake (''presale_'' @ k)) v) (presaleInfo p) flat0"

definition flatten_product :: "product_json \<Rightarrow> row" where
  "flatten_product p = ext_loop (extendedData p) 0 (with_presale p (top_level p))"

definition fetch_products_for_group :: "product_json list \<Rightarrow> frame" where
  "fetch_products_for_group data = drop_prune_cols (map flatten_product data)"

text \<open>The attack attributes of a list, in order, and the list without those beyond the
  second (used to state what the loop drops).\<close>

definition attack_values :: "(string \<times> cell option) list \<Rightarrow> cell option list" where
  "attack_values exts = map snd (filter (\<lambda>(name, val). is_attack (to_snake name)) exts)"

fun cap_attacks :: "nat \<Rightarrow> (string \<times> cell option) list \<Rightarrow> (string \<times> cell option) list" where
  "cap_attacks seen [] = []"
| "cap_attacks seen ((name, val) # exts) =
     (if is_attack (to_snake name)
      then (if seen < 2 then (name, val) # cap_attacks (Suc seen) exts else cap_attacks seen exts)
      else (name, val) # cap_attacks seen exts)"

section \<open>The base directory and the remote source\<close>

text \<open>
  A row of an enriched partition: the fact row, the product row and the group row the two
  left joins attached to it (\<open>None\<close>: no match, every column of that side is NaN). The
  columns of the three sides are kept apart; in the frames of the source they share one
  name space, which the price, product and group records of the feed keep free of
  clashes with \<^verbatim>\<open>product_id\<close>, \<^verbatim>\<open>date\<close> and \<^verbatim>\<open>sub_type_name\<close>.
\<close>

record merged_row =
  fact :: row
  product_match :: "row option"
  group_match :: "row option"

datatype rollup_file = NoFile | Unreadable | Parquet "merged_row list"

text \<open>
  The files below \<^verbatim>\<open>base_dir\<close>. A partition directory \<^verbatim>\<open>date=YYYY-MM-DD\<close> with its
  \<^verbatim>\<open>part.parquet\<close> is an entry of an association list, in the order a directory listing
  returns them. The temporary \<^verbatim>\<open>archives/\<close> and \<^verbatim>\<open>extracted/\<close> directories are not
  part of the state: what they hold is what the remote archive of the day holds.
\<close>

record disk =
  processed_days :: "day list"
  processed_products :: "string list"
  daily_prices :: "(day \<times> frame) list"
  daily :: "(day \<times> merged_row list) list"
  groups_file :: "frame option"
  products_file :: "frame option"
  full_file :: rollup_file

text \<open>A group directory of an extracted archive: its name and the \<^verbatim>\<open>results\<close> list of its
  \<^verbatim>\<open>prices\<close> file (\<open>None\<close>: not a directory, no such file, or a file that does not
  parse).\<close>

type_synonym group_dir = "string \<times> json_obj list option"

record archive =
  archive_day :: day
  archive_category :: "group_dir list option"

record day_root =
  root_day :: day
  root_category :: "group_dir list option"

text \<open>
  What the run meets outside the base directory: the archive of each day (\<open>None\<close>: the
  server answers with a status other than 200), whether writing the raw partition of a
  day succeeds, and the answers of the groups and products endpoints (\<open>None\<close>: the
  request or the parsing of its answer raises).
\<close>

record env =
  remote_archive :: "day \<Rightarrow> group_dir list option option"
  raw_write_ok :: "day \<Rightarrow> bool"
  api_groups :: "json_obj list option"
  api_products :: "string \<Rightarrow> product_json list option"

text \<open>
  Left out: the local copies of archives and extractions (a day's archive is what the
  remote source holds), exceptions of writes other than that of a raw partition and of
  the appends to the tracking files, and the upper end of Python's \<^verbatim>\<open>date\<close> range.
  An exception is a value of \<open>error\<close>; a function that can raise returns an \<open>outcome\<close>
  together with the base directory as the exception leaves it.
\<close>

datatype error = WriteFailed | FetchFailed | KeyError string | FileNotFound | ValueError | ReadFailed

datatype 'a outcome = Raised error | Returned 'a

section \<open>Fact Harvester\<close>

definition download_archive :: "env \<Rightarrow> day \<Rightarrow> archive option" where
  "download_archive e d =
     (case remote_archive e d of
        None \<Rightarrow> None
      | Some cat \<Rightarrow> Some \<lparr> archive_day = d, archive_category = cat \<rparr>)"

text \<open>\<^verbatim>\<open>extract_archive\<close> returns \<^verbatim>\<open>None\<close> when the archive has no directory of the
  category; otherwise the directory named after the day in the archive's name.\<close>

definition extract_archive :: "archive \<Rightarrow> day_root option" where
  "extract_archive a =
     (case archive_category a of
        None \<Rightarrow> None
      | Some gs \<Rightarrow> Some \<lparr> root_day = archive_day a, root_category = Some gs \<rparr>)"

definition price_frame :: "day \<Rightarrow> string \<Rightarrow> json_obj list \<Rightarrow> frame" where
  "price_frame date_str group_id results =
     map (\<lambda>obj. (snake_row obj)(''date'' \<mapsto> DayC date_str, ''groupid'' \<mapsto> StrC group_id)) results"

text \<open>The loop over the group directories; a directory without usable results is
  passed over.\<close>

fun group_frames :: "day \<Rightarrow> group_dir list \<Rightarrow> frame list" where
  "group_frames date_str [] = []"
| "group_frames date_str ((group_id, None) # gs) = group_frames date_str gs"
| "group_frames date_str ((group_id, Some results) # gs) =
     (if results = [] then group_frames date_str gs
      else price_frame date_str group_id results # group_frames date_str gs)"

text \<open>\<^verbatim>\<open>df.isna().all().all()\<close>\<close>

definition all_na :: "frame \<Rightarrow> bool" where
  "all_na df = (\<forall>r \<in> set df. r = Map.empty)"

definition harvest_prices_for_day :: "day_root \<Rightarrow> frame" where
  "harvest_prices_for_day dr =
     (case root_category dr of
        None \<Rightarrow> []
      | Some gs \<Rightarrow>
          (let rows = group_frames (root_day dr) gs;
               valid = filter (\<lambda>df. \<not> df_empty df \<and> \<not> all_na df) rows
           in concat valid))"

text \<open>
  The \<^verbatim>\<open>while d <= end_date\<close> loop of \<^verbatim>\<open>build_prices\<close>. \<open>processed\<close> is the set read
  from \<^verbatim>\<open>processed_days.txt\<close> before the loop; it is not updated inside it. The result
  carries the exception, if one left the loop: the only one modelled is a failing
  \<^verbatim>\<open>to_parquet\<close>. The recursion is guarded by \<open>0 < step\<close>; \<open>build_prices\<close> below says
  what happens otherwise.
\<close>

function build_prices_loop ::
  "env \<Rightarrow> day list \<Rightarrow> int \<Rightarrow> day \<Rightarrow> day \<Rightarrow> frame list \<times> day list \<times> disk
     \<Rightarrow> error option \<times> frame list \<times> day list \<times> disk" where
  "build_prices_loop e processed step end_date d (all_frames, new_days, s) =
     (if d \<le> end_date \<and> 0 < step then
        if d \<in> set processed
        then build_prices_loop e processed step end_date (d + step) (all_frames, new_days, s)
        else (case download_archive e d of
           None \<Rightarrow> build_prices_loop e processed step end_date (d + step) (all_frames, new_days, s)
         | Some a \<Rightarrow>
            (case extract_archive a of
               None \<Rightarrow> build_prices_loop e processed step end_date (d + step) (all_frames, new_days, s)
             | Some dr \<Rightarrow>
                (let df = harvest_prices_for_day dr in
                 if df_empty df
                 then build_prices_loop e processed step end_date (d + step) (all_frames, new_days, s)
                 else (let df = drop_prune_cols df in
                   if \<not> raw_write_ok e d then (Some WriteFailed, all_frames, new_days, s)
                   else build_prices_loop e processed step end_date (d + step)
                     (all_frames @ [df], new_days @ [d],
                      s\<lparr> daily_prices := AList.update d df (daily_prices s),
                         processed_days := processed_days s @ [d] \<rparr>)))))
      else (None, all_frames, new_days, s))"
  by pat_completeness auto
termination
  by (relation "measure (\<lambda>(e, processed, step, end_date, d, acc). nat (end_date + 1 - d))") auto

text \<open>
  With \<open>step \<le> 0\<close> and \<open>start_date \<le> end_date\<close> the loop of the source never leaves
  normally (\<open>d\<close> never passes \<open>end_date\<close>): \<open>build_prices\<close> has no result then, which is
  \<open>None\<close>.
\<close>

definition build_prices ::
  "env \<Rightarrow> disk \<Rightarrow> day \<Rightarrow> day \<Rightarrow> int \<Rightarrow> ((frame \<times> day list) outcome \<times> disk) option" where
  "build_prices e s start_date end_date step =
     (if start_date \<le> end_date \<and> step \<le> 0 then None
      else (case build_prices_loop e (processed_days s) step end_date start_date ([], [], s) of
              (Some err, all_frames, new_days, s') \<Rightarrow> Some (Raised err, s')
            | (None, all_frames, new_days, s') \<Rightarrow> Some (Returned (concat all_frames, new_days), s')))"

section \<open>Dimension Builder\<close>

definition fetch_groups :: "env \<Rightarrow> frame option" where
  "fetch_groups e =
     (case api_groups e of
        None \<Rightarrow> None
      | Some data \<Rightarrow>
          (let df = map snake_row data;
               df = (if has_column ''name'' df then rename_column ''name'' ''set_name'' df else df);
               df = (if has_column ''published_on'' df
                     then rename_column ''published_on'' ''release_date'' df else df)
           in Some df))"

text \<open>\<^verbatim>\<open>Series.unique()\<close>: the values in the order of their first occurrence.\<close>

definition unique :: "'a list \<Rightarrow> 'a list" where
  "unique xs = drop_duplicates id xs"

text \<open>\<^verbatim>\<open>df["group_id"] = gid\<close>\<close>

definition set_column :: "string \<Rightarrow> cell \<Rightarrow> frame \<Rightarrow> frame" where
  "set_column c v df = map (\<lambda>r. r(c \<mapsto> v)) df"

text \<open>
  The loop over the group ids. \<open>processed\<close> is the set read from
  \<^verbatim>\<open>processed_products.txt\<close> before the loop. An exception of the fetch is caught and
  the group passed over.
\<close>

fun products_loop ::
  "env \<Rightarrow> string list \<Rightarrow> string list \<Rightarrow> frame list \<times> disk \<Rightarrow> frame list \<times> disk" where
  "products_loop e processed [] (all_products, s) = (all_products, s)"
| "products_loop e processed (gid # gids) (all_products, s) =
     (if gid \<in> set processed \<and> products_file s \<noteq> None
      then products_loop e processed gids (all_products, s)
      else (case api_products e gid of
         None \<Rightarrow> products_loop e processed gids (all_products, s)
       | Some data \<Rightarrow>
          (let df = fetch_products_for_group data in
           if \<not> df_empty df
           then (let df = set_column ''group_id'' (StrC gid) df in
                 products_loop e processed gids
                   (all_products @ [df], s\<lparr> processed_products := processed_products s @ [gid] \<rparr>))
           else products_loop e processed gids (all_products, s))))"

text \<open>The groups table: the cache when it exists, else fetched and written.\<close>

definition load_groups :: "env \<Rightarrow> disk \<Rightarrow> (frame \<times> disk) outcome" where
  "load_groups e s =
     (case groups_file s of
        Some g \<Rightarrow> Returned (g, s)
      | None \<Rightarrow> (case fetch_groups e of
                    None \<Rightarrow> Raised FetchFailed
                  | Some g \<Rightarrow> Returned (g, s\<lparr> groups_file := Some g \<rparr>)))"

text \<open>\<^verbatim>\<open>groups_df["group_id"].astype(str).unique()\<close>\<close>

definition group_ids :: "frame \<Rightarrow> string list" where
  "group_ids groups_df = unique (map (\<lambda>r. astype_str (r ''group_id'')) groups_df)"

text \<open>What is in the products cache, nothing when there is no file.\<close>

definition cached_products :: "disk \<Rightarrow> frame" where
  "cached_products s = (case products_file s of Some old_products_df \<Rightarrow> old_products_df | None \<Rightarrow> [])"

definition build_products_and_groups :: "env \<Rightarrow> disk \<Rightarrow> (frame \<times> frame) outcome \<times> disk" where
  "build_products_and_groups e s =
     (case load_groups e s of
        Raised err \<Rightarrow> (Raised err, s)
      | Returned (groups_df, s1) \<Rightarrow>
         if \<not> has_column ''group_id'' groups_df then (Raised (KeyError ''group_id''), s1)
         else
          (let (all_products, s2) =
                 products_loop e (processed_products s1) (group_ids groups_df) ([], s1);
               (products_df, s3) =
                 (if all_products \<noteq> [] then
                    (let new_products_df = concat all_products;
                         products_df = (case products_file s2 of
                                          Some old_products_df \<Rightarrow> old_products_df @ new_products_df
                                        | None \<Rightarrow> new_products_df)
                     in (products_df, s2\<lparr> products_file := Some products_df \<rparr>))
                  else (cached_products s2, s2));
               groups_df = rename_column ''group_id'' ''groupid'' groups_df;
               products_df = rename_column ''group_id'' ''groupid'' products_df;
               products_df = drop_duplicates id products_df
           in (Returned (groups_df, products_df), s3)))"

section \<open>Merge Engine\<close>

definition dedup_key :: "merged_row \<Rightarrow> cell option \<times> cell option \<times> cell option" where
  "dedup_key m = (fact m ''product_id'', fact m ''date'', fact m ''sub_type_name'')"

definition on_products :: "row \<Rightarrow> row \<Rightarrow> bool" where
  "on_products l r = (l ''groupid'' = r ''groupid'' \<and> l ''product_id'' = r ''product_id'')"

definition on_groups :: "row \<times> row option \<Rightarrow> row \<Rightarrow> bool" where
  "on_groups lp g = (fst lp ''groupid'' = g ''groupid'')"

text \<open>
  The two left joins of one day, before \<^verbatim>\<open>drop_duplicates\<close>. A row of the joined
  table is kept as its three sides: the fact row, the Products row that the first join
  put beside it and the Groups row that the second did (\<open>None\<close>: the columns of that
  side are null). The second join is on the \<^verbatim>\<open>groupid\<close> of the fact row.
\<close>

definition join_day :: "frame \<Rightarrow> frame \<Rightarrow> frame \<Rightarrow> merged_row list" where
  "join_day day_prices products_df groups_df =
     (let merged_df = merge_left on_products day_prices products_df;
          merged_df = merge_left on_groups merged_df groups_df
      in map (\<lambda>((l, p), g). \<lparr> fact = l, product_match = p, group_match = g \<rparr>) merged_df)"

text \<open>The rows of the enriched partition: the joined table after
  \<^verbatim>\<open>drop_duplicates(subset=["product_id", "date", "sub_type_name"], keep="first")\<close>.\<close>

definition merged_rows :: "frame \<Rightarrow> frame \<Rightarrow> frame \<Rightarrow> merged_row list" where
  "merged_rows day_prices products_df groups_df =
     drop_duplicates dedup_key (join_day day_prices products_df groups_df)"

text \<open>The first column of the list that is missing in the frame it is looked up in.\<close>

definition missing_column :: "(string \<times> frame) list \<Rightarrow> string option" where
  "missing_column cs = map_option fst (find (\<lambda>(c, df). \<not> has_column c df) cs)"

text \<open>
  Lines 483 to 485 for one day. \<^verbatim>\<open>merge\<close> raises \<^verbatim>\<open>KeyError\<close> when a key column is
  missing on either side (it looks each key up on the right, then on the left), and
  \<^verbatim>\<open>drop_duplicates\<close> does when a column of its subset is missing in the joined table;
  nothing is written for the day then. The exception carries the first missing column
  in this order; when several are missing pandas may name another, or all of them. The
  dimension tables are taken to have no column named \<^verbatim>\<open>date\<close> or \<^verbatim>\<open>sub_type_name\<close> and
  Groups none named \<^verbatim>\<open>product_id\<close> (the two endpoints have none), so that these columns
  of the joined table are those of the prices.
\<close>

definition merge_day :: "frame \<Rightarrow> frame \<Rightarrow> frame \<Rightarrow> merged_row list outcome" where
  "merge_day day_prices products_df groups_df =
     (case missing_column [(''groupid'', products_df), (''groupid'', day_prices),
                           (''product_id'', products_df), (''product_id'', day_prices)] of
        Some c \<Rightarrow> Raised (KeyError c)
      | None \<Rightarrow>
     (case missing_column [(''groupid'', groups_df), (''groupid'', day_prices)] of
        Some c \<Rightarrow> Raised (KeyError c)
      | None \<Rightarrow>
     (case missing_column [(''product_id'', day_prices), (''date'', day_prices),
                           (''sub_type_name'', day_prices)] of
        Some c \<Rightarrow> Raised (KeyError c)
      | None \<Rightarrow> Returned (merged_rows day_prices products_df groups_df))))"

text \<open>The loop of stage 3 over \<^verbatim>\<open>new_days\<close>; reading a raw partition that is not on disk
  raises, and so does a merge without its key columns.\<close>

fun merge_loop :: "frame \<Rightarrow> frame \<Rightarrow> day list \<Rightarrow> nat \<times> disk \<Rightarrow> error option \<times> nat \<times> disk" where
  "merge_loop products_df groups_df [] (total_rows_written, s) = (None, total_rows_written, s)"
| "merge_loop products_df groups_df (d # days) (total_rows_written, s) =
     (case map_of (daily_prices s) d of
        None \<Rightarrow> (Some FileNotFound, total_rows_written, s)
      | Some day_prices \<Rightarrow>
          (case merge_day day_prices products_df groups_df of
             Raised err \<Rightarrow> (Some err, total_rows_written, s)
           | Returned merged_df \<Rightarrow>
               merge_loop products_df groups_df days
                 (total_rows_written + length merged_df,
                  s\<lparr> daily := AList.update d merged_df (daily s) \<rparr>)))"

section \<open>Rollup Maintainer\<close>

definition date_values :: "merged_row list \<Rightarrow> cell option set" where
  "date_values df = set (map (\<lambda>m. fact m ''date'') df)"

definition partition_dates :: "(day \<times> 'a) list \<Rightarrow> cell option set" where
  "partition_dates daily_files = set (map (\<lambda>f. Some (DayC (fst f))) daily_files)"

text \<open>\<^verbatim>\<open>pd.concat\<close> of an empty list raises \<^verbatim>\<open>ValueError\<close>.\<close>

definition build_full_file :: "disk \<Rightarrow> unit outcome \<times> disk" where
  "build_full_file s =
     (let daily_files = daily s;
          all_dates = partition_dates daily_files;
          up_to_date =
            (case full_file s of
               NoFile \<Rightarrow> False
             | Unreadable \<Rightarrow> {} = all_dates
             | Parquet old_df \<Rightarrow> date_values old_df = all_dates)
      in if up_to_date then (Returned (), s)
         else if daily_files = [] then (Raised ValueError, s)
         else (Returned (), s\<lparr> full_file := Parquet (concat (map snd daily_files)) \<rparr>))"

definition append_to_full_file :: "disk \<Rightarrow> day list \<Rightarrow> unit outcome \<times> disk" where
  "append_to_full_file s new_days =
     (case full_file s of
        NoFile \<Rightarrow> build_full_file s
      | Unreadable \<Rightarrow> (Raised ReadFailed, s)
      | Parquet old_df \<Rightarrow>
          (let new_dfs = List.map_filter (\<lambda>d. map_of (daily s) d) new_days in
           if new_dfs = [] then (Returned (), s)
           else (let new_df = concat new_dfs;
                     full_df = drop_duplicates dedup_key (old_df @ new_df)
                 in (Returned (), s\<lparr> full_file := Parquet full_df \<rparr>))))"

section \<open>Retention Pruner\<close>

text \<open>The slice \<^verbatim>\<open>xs[:k]\<close> of Python, for any integer \<open>k\<close>.\<close>

definition slice_to :: "int \<Rightarrow> 'a list \<Rightarrow> 'a list" where
  "slice_to k xs = (if k < 0 then take (length xs - nat (- k)) xs else take (nat k) xs)"

text \<open>\<^verbatim>\<open>sorted(partitions, key=..., reverse=True)\<close> is a stable sort on the reversed
  order; a partition directory is identified by its date. Removing a directory is taken
  to succeed.\<close>

definition prune_old_daily_prices :: "int \<Rightarrow> disk \<Rightarrow> disk" where
  "prune_old_daily_prices keep_days s =
     (let partitions = map fst (daily_prices s);
          partitions_sorted = sort_key (\<lambda>p. - p) partitions;
          keep = set (slice_to keep_days partitions_sorted);
          delete = filter (\<lambda>p. p \<notin> keep) partitions_sorted
      in s\<lparr> daily_prices := fold AList.delete delete (daily_prices s) \<rparr>)"

section \<open>Main\<close>

text \<open>The arguments that reach the stages; \<^verbatim>\<open>--base-dir\<close> is the \<open>disk\<close> and
  \<^verbatim>\<open>--keep-extracted\<close> only concerns the temporary directories.\<close>

record args =
  start_date :: day
  end_date :: day
  interval :: int
  full_file_flag :: bool

text \<open>\<^verbatim>\<open>df[c] = df[c].astype(str)\<close>\<close>

definition astype_str_column :: "string \<Rightarrow> frame \<Rightarrow> frame" where
  "astype_str_column c df = map (\<lambda>r. r(c \<mapsto> StrC (astype_str (r c)))) df"

text \<open>Stage 4, as \<^verbatim>\<open>main\<close> runs it.\<close>

definition stage4 :: "bool \<Rightarrow> disk \<Rightarrow> unit outcome \<times> disk" where
  "stage4 flag s = (if flag then build_full_file s else (Returned (), s))"

text \<open>Stages 2 to 5 of \<^verbatim>\<open>main\<close>, which run when \<^verbatim>\<open>new_days\<close> is not empty.\<close>

definition stages_2_to_5 :: "env \<Rightarrow> args \<Rightarrow> day list \<Rightarrow> disk \<Rightarrow> int outcome \<times> disk" where
  "stages_2_to_5 e a new_days s1 =
     (case build_products_and_groups e s1 of
        (Raised err, s2) \<Rightarrow> (Raised err, s2)
      | (Returned (groups_df, products_df), s2) \<Rightarrow>
         if \<not> has_column ''groupid'' products_df then (Raised (KeyError ''groupid''), s2)
         else if \<not> has_column ''groupid'' groups_df then (Raised (KeyError ''groupid''), s2)
         else
          (let products_df = astype_str_column ''groupid'' products_df;
               groups_df = astype_str_column ''groupid'' groups_df;
               groups_df = drop_prune_cols groups_df;
               products_df = drop_prune_cols products_df
           in (case merge_loop products_df groups_df new_days (0, s2) of
                 (Some err, total_rows_written, s3) \<Rightarrow> (Raised err, s3)
               | (None, total_rows_written, s3) \<Rightarrow>
                  (case stage4 (full_file_flag a) s3 of
                     (Raised err, s4) \<Rightarrow> (Raised err, s4)
                   | (Returned u, s4) \<Rightarrow> (Returned 0, prune_old_daily_prices 7 s4)))))"

definition main :: "env \<Rightarrow> args \<Rightarrow> disk \<Rightarrow> (int outcome \<times> disk) option" where
  "main e a s =
     (case build_prices e s (start_date a) (end_date a) (interval a) of
        None \<Rightarrow> None
      | Some (Raised err, s1) \<Rightarrow> Some (Raised err, s1)
      | Some (Returned (prices_df, new_days), s1) \<Rightarrow>
         if new_days = [] then Some (Returned 0, s1)
         else Some (stages_2_to_5 e a new_days s1))"

text \<open>The key columns of a fact row.\<close>

definition fact_key :: "row \<Rightarrow> cell option \<times> cell option \<times> cell option" where
  "fact_key r = (r ''product_id'', r ''date'', r ''sub_type_name'')"

section \<open>Well-formed partitions\<close>

text \<open>
  The guard of \<^verbatim>\<open>build_full_file\<close>, \<^verbatim>\<open>existing_dates == all_dates\<close> for a file that
  exists, on its own.
\<close>

definition rollup_up_to_date :: "disk \<Rightarrow> bool" where
  "rollup_up_to_date s =
     (case full_file s of
        NoFile \<Rightarrow> False
      | Unreadable \<Rightarrow> {} = partition_dates (daily s)
      | Parquet old_df \<Rightarrow> date_values old_df = partition_dates (daily s))"

text \<open>
  A raw partition as the Fact Harvester writes it for day \<open>d\<close>, and an enriched partition
  as the Merge Engine writes it: not empty, every row dated \<open>d\<close>, and (enriched) no key
  twice. A directory has one entry per name.
\<close>

definition raw_partition_ok :: "day \<Rightarrow> frame \<Rightarrow> bool" where
  "raw_partition_ok d df = (df \<noteq> [] \<and> (\<forall>r \<in> set df. r ''date'' = Some (DayC d)))"

definition partition_ok :: "day \<Rightarrow> merged_row list \<Rightarrow> bool" where
  "partition_ok d df =
     (df \<noteq> [] \<and> distinct (map dedup_key df) \<and> (\<forall>m \<in> set df. fact m ''date'' = Some (DayC d)))"

definition daily_ok :: "(day \<times> merged_row list) list \<Rightarrow> bool" where
  "daily_ok daily_files =
     (distinct (map fst daily_files) \<and> (\<forall>f \<in> set daily_files. partition_ok (fst f) (snd f)))"

text \<open>
  The frame that one pass of the harvesting loop writes for day \<open>d\<close>, if it gets that
  far: \<open>None\<close> when the archive is missing, when the extraction finds no directory of
  the category, or when the harvested frame is empty.
\<close>

definition day_frame :: "env \<Rightarrow> day \<Rightarrow> frame option" where
  "day_frame e d =
     (case download_archive e d of
        None \<Rightarrow> None
      | Some a \<Rightarrow>
         (case extract_archive a of
            None \<Rightarrow> None
          | Some dr \<Rightarrow>
             (let df = harvest_prices_for_day dr in
              if df_empty df then None else Some (drop_prune_cols df))))"

text \<open>
  A base directory as runs of the pipeline leave it: one raw partition per date
  directory, enriched partitions as the Merge Engine writes them, and a rollup without
  a key twice.
\<close>

definition disk_ok :: "disk \<Rightarrow> bool" where
  "disk_ok s =
     (distinct (map fst (daily_prices s)) \<and> daily_ok (daily s)
      \<and> (case full_file s of Parquet df \<Rightarrow> distinct (map dedup_key df) | _ \<Rightarrow> True))"

section \<open>Concrete inputs\<close>

text \<open>A product with three attack attributes.\<close>

definition ex_product :: product_json where
  "ex_product = \<lparr> items = [(''productId'', Some (IntC 42)), (''name'', Some (StrC ''Pikachu''))],
      presaleInfo = [(''isPresale'', Some (OtherC 0))],
      extendedData = [(''Number'', Some (StrC ''025'')), (''Attack 1'', Some (StrC ''Gnaw'')),
        (''Attack 2'', Some (StrC ''Thunder Jolt'')), (''Attack 3'', Some (StrC ''Agility''))] \<rparr>"


text \<open>Two price rows of day 5 in group 604, a products table that knows the first
  product only, and a groups table without group 604.\<close>

definition ex_price_a :: row where
  "ex_price_a = [''product_id'' \<mapsto> IntC 1, ''sub_type_name'' \<mapsto> StrC ''Normal'',
     ''date'' \<mapsto> DayC 5, ''groupid'' \<mapsto> StrC ''604'']"

definition ex_price_b :: row where
  "ex_price_b = [''product_id'' \<mapsto> IntC 2, ''sub_type_name'' \<mapsto> StrC ''Normal'',
     ''date'' \<mapsto> DayC 5, ''groupid'' \<mapsto> StrC ''604'']"

definition ex_products :: frame where
  "ex_products = [[''product_id'' \<mapsto> IntC 1, ''groupid'' \<mapsto> StrC ''604'',
     ''name'' \<mapsto> StrC ''Pikachu'']]"

definition ex_groups :: frame where
  "ex_groups = [[''groupid'' \<mapsto> StrC ''999'', ''set_name'' \<mapsto> StrC ''Base'']]"

definition ex_partition :: "merged_row list" where
  "ex_partition = merged_rows [ex_price_a, ex_price_b] ex_products ex_groups"

text \<open>A base directory with the enriched partition of day 5 and no rollup, and the same
  with a rollup that holds the partition.\<close>

definition ex_disk :: disk where
  "ex_disk = \<lparr> processed_days = [5], processed_products = [''604''],
     daily_prices = [(5, [ex_price_a, ex_price_b])], daily = [(5, ex_partition)],
     groups_file = Some ex_groups, products_file = Some ex_products, full_file = NoFile \<rparr>"

definition ex_disk_rollup :: disk where
  "ex_disk_rollup = ex_disk \<lparr> full_file := Parquet ex_partition \<rparr>"

text \<open>A base directory with the raw partitions of days 3, 1, 4 and 2, listed in that
  order.\<close>

definition ex_raw_disk :: disk where
  "ex_raw_disk = ex_disk \<lparr> daily_prices := [(3, [ex_price_a]), (1, []), (4, [ex_price_b]), (2, [])] \<rparr>"

text \<open>A remote source with one group, 604, whose only product is the one above, and an
  archive for day 5 only. The base directory has the products of group 604 in its cache
  but no tracking files.\<close>

definition ex_env :: env where
  "ex_env = \<lparr> remote_archive = (\<lambda>d. if d = 5 then Some (Some
        [(''604'', Some [[(''productId'', Some (IntC 42)), (''subTypeName'', Some (StrC ''Normal'')),
                          (''marketPrice'', Some (OtherC 7))]])]) else None),
      raw_write_ok = (\<lambda>d. True),
      api_groups = Some [[(''groupId'', Some (IntC 604)), (''name'', Some (StrC ''Base''))]],
      api_products = (\<lambda>gid. if gid = ''604'' then Some [ex_product] else None) \<rparr>"

definition ex_cache :: frame where
  "ex_cache = set_column ''group_id'' (StrC ''604'') (fetch_products_for_group [ex_product])"

definition ex_disk_cache :: disk where
  "ex_disk_cache = \<lparr> processed_days = [], processed_products = [],
     daily_prices = [], daily = [],
     groups_file = Some [[''group_id'' \<mapsto> IntC 604]], products_file = Some ex_cache,
     full_file = NoFile \<rparr>"

text \<open>A price row of day 6, its enriched partition, and a base directory whose rollup
  holds day 5 while the enriched partitions of days 5 and 6 are on disk.\<close>

definition ex_price_c :: row where
  "ex_price_c = [''product_id'' \<mapsto> IntC 1, ''sub_type_name'' \<mapsto> StrC ''Normal'',
     ''date'' \<mapsto> DayC 6, ''groupid'' \<mapsto> StrC ''604'']"

definition ex_partition6 :: "merged_row list" where
  "ex_partition6 = merged_rows [ex_price_c] ex_products ex_groups"

definition ex_disk_two :: disk where
  "ex_disk_two = ex_disk \<lparr> processed_days := [5, 6],
     daily_prices := [(5, [ex_price_a, ex_price_b]), (6, [ex_price_c])],
     daily := [(5, ex_partition), (6, ex_partition6)],
     full_file := Parquet ex_partition \<rparr>"

text \<open>An empty base directory, the raw partition that the source above yields for day
  5, and the arguments of a run over days 4 and 5 with \<^verbatim>\<open>--full-file\<close>.\<close>

definition ex_disk0 :: disk where
  "ex_disk0 = \<lparr> processed_days = [], processed_products = [], daily_prices = [], daily = [],
     groups_file = None, products_file = None, full_file = NoFile \<rparr>"

definition ex_raw5 :: frame where
  "ex_raw5 = drop_prune_cols (price_frame 5 ''604''
     [[(''productId'', Some (IntC 42)), (''subTypeName'', Some (StrC ''Normal'')),
       (''marketPrice'', Some (OtherC 7))]])"

definition ex_args :: args where
  "ex_args = \<lparr> start_date = 4, end_date = 5, interval = 1, full_file_flag = True \<rparr>"

text \<open>The base directory after the harvest of that run.\<close>

definition ex_disk1 :: disk where
  "ex_disk1 = ex_disk0 \<lparr> daily_prices := [(5, ex_raw5)], processed_days := [5] \<rparr>"

text \<open>What that run computes and leaves: the groups table, the dimension tables as the
  merge takes them, the enriched partition of day 5 and the base directory at the end.
  The last directory is as the empty one, but with a rollup left over from day 6.\<close>

definition ex_groups_df :: frame where
  "ex_groups_df = the (fetch_groups ex_env)"

definition ex_products_merge :: frame where
  "ex_products_merge = drop_prune_cols (astype_str_column ''groupid''
     (drop_duplicates id (rename_column ''group_id'' ''groupid'' ex_cache)))"

definition ex_groups_merge :: frame where
  "ex_groups_merge = drop_prune_cols (astype_str_column ''groupid''
     (rename_column ''group_id'' ''groupid'' ex_groups_df))"

definition ex_enriched5 :: "merged_row list" where
  "ex_enriched5 = merged_rows ex_raw5 ex_products_merge ex_groups_merge"

definition ex_final :: disk where
  "ex_final = \<lparr> processed_days = [5], processed_products = [''604''],
     daily_prices = [(5, ex_raw5)], daily = [(5, ex_enriched5)],
     groups_file = Some ex_groups_df, products_file = Some ex_cache,
     full_file = Parquet ex_enriched5 \<rparr>"

definition ex_disk_stale :: disk where
  "ex_disk_stale = ex_disk0 \<lparr> full_file := Parquet ex_partition6 \<rparr>"




section \<open>Properties of the product flattening\<close>

declare digits.simps [simp del]

lemma is_attack_not_empty: "is_attack k \<Longrightarrow> k \<noteq> []"
  by (auto simp: is_attack_def)

lemma digits_1: "digits (Suc 0) = ''1''" by code_simp
lemma digits_2: "digits (Suc (Suc 0)) = ''2''"
proof -
  have "digits 2 = ''2''" by code_simp
  then show ?thesis by (simp add: numeral_2_eq_2)
qed

lemma is_attack_12: "is_attack ''attack_1''" "is_attack ''attack_2''"
  by (simp_all add: is_attack_def)

lemma not_attack_neq:
  assumes "\<not> is_attack k"
  shows "k \<noteq> ''attack_1''" "k \<noteq> ''attack_2''"
  using assms is_attack_12 by auto

lemma ext_loop_skip:
  "to_snake name = [] \<Longrightarrow> ext_loop ((name, val) # exts) n flat = ext_loop exts n flat"
  by simp


lemma ext_loop_attack_kept:
  "is_attack (to_snake name) \<Longrightarrow> n < 2 \<Longrightarrow>
   ext_loop ((name, val) # exts) n flat =
   ext_loop exts (Suc n) (flat(''attack_'' @ digits (Suc n) := val))"
  by (auto simp: Let_def assign_def dest: is_attack_not_empty)

lemma ext_loop_attack_dropped:
  "is_attack (to_snake name) \<Longrightarrow> 2 \<le> n \<Longrightarrow>
   ext_loop ((name, val) # exts) n flat = ext_loop exts (Suc n) flat"
  by (auto simp: Let_def assign_def dest: is_attack_not_empty)

lemma ext_loop_other:
  "to_snake name \<noteq> [] \<Longrightarrow> \<not> is_attack (to_snake name) \<Longrightarrow>
   ext_loop ((name, val) # exts) n flat = ext_loop exts n (flat(to_snake name := val))"
  by (auto simp: Let_def assign_def)

declare ext_loop.simps(2) [simp del]

lemma ext_cases:
  obtains (skip) "to_snake name = []"
  | (kept) "is_attack (to_snake name)" "n < (2::nat)"
  | (dropped) "is_attack (to_snake name)" "2 \<le> n"
  | (other) "to_snake name \<noteq> []" "\<not> is_attack (to_snake name)"
  by (cases "to_snake name = []"; cases "is_attack (to_snake name)"; cases "n < 2") auto

lemma attack_values_Cons:
  "attack_values ((name, val) # exts) =
     (if is_attack (to_snake name) then val # attack_values exts else attack_values exts)"
  by (simp add: attack_values_def)

lemma attack_values_Nil: "attack_values [] = []"
  by (simp add: attack_values_def)

lemma ext_loop_seen2:
  "2 \<le> n \<Longrightarrow> is_attack k \<Longrightarrow> ext_loop exts n flat k = flat k"
proof (induction exts arbitrary: n flat)
  case Nil
  then show ?case by simp
next
  case (Cons e exts)
  obtain name val where e: "e = (name, val)" by (cases e)
  show ?case
  proof (cases rule: ext_cases [where name=name and n=n])
    case skip
    then show ?thesis using Cons by (simp add: e ext_loop_skip)
  next
    case kept
    then show ?thesis using Cons.prems by simp
  next
    case dropped
    then show ?thesis using Cons by (simp add: e ext_loop_attack_dropped)
  next
    case other
    moreover from other Cons.prems have "k \<noteq> to_snake name" by auto
    ultimately show ?thesis using Cons by (simp add: e ext_loop_other)
  qed
qed

lemma ext_loop_seen1_a1:
  "ext_loop exts (Suc 0) flat ''attack_1'' = flat ''attack_1''"
proof (induction exts arbitrary: flat)
  case Nil
  then show ?case by simp
next
  case (Cons e exts)
  obtain name val where e: "e = (name, val)" by (cases e)
  show ?case
  proof (cases rule: ext_cases [where name=name and n="Suc 0"])
    case skip
    then show ?thesis using Cons by (simp add: e ext_loop_skip)
  next
    case kept
    then show ?thesis
      by (simp add: e ext_loop_attack_kept digits_2 ext_loop_seen2 is_attack_12)
  next
    case dropped
    then show ?thesis by simp
  next
    case other
    then show ?thesis using Cons not_attack_neq [OF other(2)]
      by (simp add: e ext_loop_other fun_upd_def)
  qed
qed

lemma ext_loop_seen1_a2:
  "ext_loop exts (Suc 0) flat ''attack_2'' =
     (case attack_values exts of [] \<Rightarrow> flat ''attack_2'' | v # _ \<Rightarrow> v)"
proof (induction exts arbitrary: flat)
  case Nil
  then show ?case by (simp add: attack_values_Nil)
next
  case (Cons e exts)
  obtain name val where e: "e = (name, val)" by (cases e)
  show ?case
  proof (cases rule: ext_cases [where name=name and n="Suc 0"])
    case skip
    then have "\<not> is_attack (to_snake name)" using is_attack_not_empty by auto
    with skip show ?thesis using Cons by (simp add: e ext_loop_skip attack_values_Cons)
  next
    case kept
    then show ?thesis
      by (simp add: e ext_loop_attack_kept digits_2 ext_loop_seen2 is_attack_12 attack_values_Cons)
  next
    case dropped
    then show ?thesis by simp
  next
    case other
    then show ?thesis using Cons not_attack_neq [OF other(2)]
      by (simp add: e ext_loop_other attack_values_Cons split: list.splits)
  qed
qed

lemma ext_loop_seen0_a1:
  "ext_loop exts 0 flat ''attack_1'' =
     (case attack_values exts of [] \<Rightarrow> flat ''attack_1'' | v # _ \<Rightarrow> v)"
proof (induction exts arbitrary: flat)
  case Nil
  then show ?case by (simp add: attack_values_Nil)
next
  case (Cons e exts)
  obtain name val where e: "e = (name, val)" by (cases e)
  show ?case
  proof (cases rule: ext_cases [where name=name and n=0])
    case skip
    then have "\<not> is_attack (to_snake name)" using is_attack_not_empty by auto
    with skip show ?thesis using Cons by (simp add: e ext_loop_skip attack_values_Cons)
  next
    case kept
    then show ?thesis
      by (simp add: e ext_loop_attack_kept digits_1 ext_loop_seen1_a1 attack_values_Cons)
  next
    case dropped
    then show ?thesis by simp
  next
    case other
    then show ?thesis using Cons not_attack_neq [OF other(2)]
      by (simp add: e ext_loop_other attack_values_Cons split: list.splits)
  qed
qed

lemma ext_loop_seen0_a2:
  "ext_loop exts 0 flat ''attack_2'' =
     (case attack_values exts of [] \<Rightarrow> flat ''attack_2'' | [v] \<Rightarrow> flat ''attack_2'' | v # w # _ \<Rightarrow> w)"
proof (induction exts arbitrary: flat)
  case Nil
  then show ?case by (simp add: attack_values_Nil)
next
  case (Cons e exts)
  obtain name val where e: "e = (name, val)" by (cases e)
  show ?case
  proof (cases rule: ext_cases [where name=name and n=0])
    case skip
    then have "\<not> is_attack (to_snake name)" using is_attack_not_empty by auto
    with skip show ?thesis using Cons by (simp add: e ext_loop_skip attack_values_Cons)
  next
    case kept
    then show ?thesis
      by (simp add: e ext_loop_attack_kept digits_1 ext_loop_seen1_a2 attack_values_Cons
               split: list.splits)
  next
    case dropped
    then show ?thesis by simp
  next
    case other
    then show ?thesis using Cons not_attack_neq [OF other(2)]
      by (simp add: e ext_loop_other attack_values_Cons split: list.splits)
  qed
qed

lemma ext_loop_other_attack:
  "is_attack k \<Longrightarrow> k \<noteq> ''attack_1'' \<Longrightarrow> k \<noteq> ''attack_2'' \<Longrightarrow> ext_loop exts n flat k = flat k"
proof (induction exts arbitrary: n flat)
  case Nil
  then show ?case by simp
next
  case (Cons e exts)
  obtain name val where e: "e = (name, val)" by (cases e)
  show ?case
  proof (cases rule: ext_cases [where name=name and n=n])
    case skip
    then show ?thesis using Cons by (simp add: e ext_loop_skip)
  next
    case kept
    then have "n = 0 \<or> n = Suc 0" by arith
    then show ?thesis using kept Cons
      by (auto simp: e ext_loop_attack_kept digits_1 digits_2)
  next
    case dropped
    then show ?thesis using Cons by (simp add: e ext_loop_attack_dropped)
  next
    case other
    moreover from other Cons.prems have "k \<noteq> to_snake name" by auto
    ultimately show ?thesis using Cons by (simp add: e ext_loop_other)
  qed
qed

lemma ext_loop_counter_irrelevant:
  "2 \<le> n \<Longrightarrow> 2 \<le> m \<Longrightarrow> ext_loop exts n flat = ext_loop exts m flat"
proof (induction exts arbitrary: n m flat)
  case Nil
  then show ?case by simp
next
  case (Cons e exts)
  obtain name val where e: "e = (name, val)" by (cases e)
  have "ext_loop exts (Suc n) flat = ext_loop exts (Suc m) flat"
    using Cons.prems by (intro Cons.IH) auto
  moreover have "ext_loop exts n f = ext_loop exts m f" for f
    using Cons.prems by (intro Cons.IH) auto
  ultimately show ?case using Cons.prems
    by (simp add: e Let_def ext_loop.simps(2))
qed

lemma ext_loop_cap: "ext_loop (cap_attacks n exts) n flat = ext_loop exts n flat"
proof (induction exts arbitrary: n flat)
  case Nil
  then show ?case by simp
next
  case (Cons e exts)
  obtain name val where e: "e = (name, val)" by (cases e)
  show ?case
  proof (cases rule: ext_cases [where name=name and n=n])
    case skip
    then have "\<not> is_attack (to_snake name)" using is_attack_not_empty by auto
    with skip show ?thesis using Cons by (simp add: e ext_loop_skip)
  next
    case kept
    then show ?thesis using Cons by (simp add: e ext_loop_attack_kept fun_upd_def)
  next
    case dropped
    then have "ext_loop exts (Suc n) flat = ext_loop exts n flat"
      by (intro ext_loop_counter_irrelevant) auto
    with dropped show ?thesis using Cons by (simp add: e ext_loop_attack_dropped)
  next
    case other
    then show ?thesis using Cons by (simp add: e ext_loop_other fun_upd_def)
  qed
qed

lemma attack_values_cap:
  "attack_values (cap_attacks n exts) = take (2 - n) (attack_values exts)"
proof (induction exts arbitrary: n)
  case Nil
  then show ?case by (simp add: attack_values_Nil)
next
  case (Cons e exts)
  obtain name val where e: "e = (name, val)" by (cases e)
  show ?case
  proof (cases "is_attack (to_snake name)")
    case True
    then show ?thesis using Cons
      by (cases "n < 2") (simp_all add: e attack_values_Cons Suc_diff_le take_Cons' )
  next
    case False
    then show ?thesis using Cons by (simp add: e ext_loop_skip attack_values_Cons)
  qed
qed

lemma prune_row_attack12:
  "prune_row r ''attack_1'' = r ''attack_1''" "prune_row r ''attack_2'' = r ''attack_2''"
  by (simp_all add: prune_row_def PRUNE_COLS_def)

lemma attack_values_first_two:
  assumes "3 \<le> length (attack_values exts)"
  shows "ext_loop exts 0 flat ''attack_1'' = attack_values exts ! 0"
    and "ext_loop exts 0 flat ''attack_2'' = attack_values exts ! 1"
    and "take 2 (attack_values exts) = [attack_values exts ! 0, attack_values exts ! 1]"
proof -
  obtain a b c rest where *: "attack_values exts = a # b # c # rest"
    using assms by (cases "attack_values exts" rule: list.exhaust;
      simp; metis Suc_le_length_iff numeral_3_eq_3 list.sel(3) length_Cons)
  show "ext_loop exts 0 flat ''attack_1'' = attack_values exts ! 0"
    by (simp add: ext_loop_seen0_a1 *)
  show "ext_loop exts 0 flat ''attack_2'' = attack_values exts ! 1"
    by (simp add: ext_loop_seen0_a2 *)
  show "take 2 (attack_values exts) = [attack_values exts ! 0, attack_values exts ! 1]"
    by (simp add: * numeral_2_eq_2)
qed

text \<open>
  Claim C8. A product whose extended-attribute list holds three or more attack attributes
  is flattened to a row in which \<open>attack_1\<close> and \<open>attack_2\<close> carry the values of the
  first and the second attack attribute, in that order; no other column named
  \<open>attack...\<close> receives a value from the list, and the row is the one the product would
  give had every attack attribute after the second been absent from the list.
\<close>

theorem attacks_capped_at_two:
  assumes "i < length data"
    and "3 \<le> length (attack_values (extendedData (data ! i)))"
  shows "(fetch_products_for_group data ! i) ''attack_1'' = attack_values (extendedData (data ! i)) ! 0
    \<and> (fetch_products_for_group data ! i) ''attack_2'' = attack_values (extendedData (data ! i)) ! 1
    \<and> (\<forall>k. is_attack k \<and> k \<noteq> ''attack_1'' \<and> k \<noteq> ''attack_2'' \<longrightarrow>
           (fetch_products_for_group data ! i) k =
           prune_row (with_presale (data ! i) (top_level (data ! i))) k)
    \<and> fetch_products_for_group data ! i =
           prune_row (flatten_product ((data ! i)\<lparr>extendedData := cap_attacks 0 (extendedData (data ! i))\<rparr>))
    \<and> attack_values (cap_attacks 0 (extendedData (data ! i))) =
           [attack_values (extendedData (data ! i)) ! 0, attack_values (extendedData (data ! i)) ! 1]"
proof -
  let ?p = "data ! i"
  have row: "fetch_products_for_group data ! i = prune_row (flatten_product ?p)"
    using assms(1) by (simp add: fetch_products_for_group_def drop_prune_cols_def)
  have a1: "(fetch_products_for_group data ! i) ''attack_1'' = attack_values (extendedData ?p) ! 0"
    by (simp add: row prune_row_attack12 flatten_product_def attack_values_first_two(1) [OF assms(2)])
  have a2: "(fetch_products_for_group data ! i) ''attack_2'' = attack_values (extendedData ?p) ! 1"
    by (simp add: row prune_row_attack12 flatten_product_def attack_values_first_two(2) [OF assms(2)])
  have others: "\<forall>k. is_attack k \<and> k \<noteq> ''attack_1'' \<and> k \<noteq> ''attack_2'' \<longrightarrow>
           (fetch_products_for_group data ! i) k = prune_row (with_presale ?p (top_level ?p)) k"
    by (simp add: row prune_row_def flatten_product_def ext_loop_other_attack)
  have capped: "fetch_products_for_group data ! i =
           prune_row (flatten_product (?p\<lparr>extendedData := cap_attacks 0 (extendedData ?p)\<rparr>))"
    by (simp add: row flatten_product_def ext_loop_cap with_presale_def top_level_def)
  have two: "attack_values (cap_attacks 0 (extendedData ?p)) =
           [attack_values (extendedData ?p) ! 0, attack_values (extendedData ?p) ! 1]"
    using attack_values_first_two(3) [OF assms(2)] by (simp add: attack_values_cap)
  from a1 a2 others capped two show ?thesis by blast
qed

lemma ex_attacks: "attack_values (extendedData ex_product) = [Some (StrC ''Gnaw''), Some (StrC ''Thunder Jolt''), Some (StrC ''Agility'')]"
  by code_simp

lemma ex_base: "with_presale ex_product (top_level ex_product) ''attack_3'' = None"
  by code_simp

theorem attacks_capped_at_two_witness:
  "0 < length [ex_product] \<and> 3 \<le> length (attack_values (extendedData ([ex_product] ! 0))) \<and>
   (fetch_products_for_group [ex_product] ! 0) ''attack_1'' = Some (StrC ''Gnaw'') \<and>
   (fetch_products_for_group [ex_product] ! 0) ''attack_2'' = Some (StrC ''Thunder Jolt'') \<and>
   (fetch_products_for_group [ex_product] ! 0) ''attack_3'' = None"
proof -
  have h1: "0 < length [ex_product]" by simp
  have h2: "3 \<le> length (attack_values (extendedData ([ex_product] ! 0)))"
    by (simp add: ex_attacks)
  note t = attacks_capped_at_two [OF h1 h2]
  have k: "is_attack ''attack_3'' \<and> ''attack_3'' \<noteq> ''attack_1'' \<and> ''attack_3'' \<noteq> ''attack_2''"
    by (simp add: is_attack_def)
  from t have "(fetch_products_for_group [ex_product] ! 0) ''attack_3'' =
      prune_row (with_presale ([ex_product] ! 0) (top_level ([ex_product] ! 0))) ''attack_3''"
    using k by blast
  then have a3: "(fetch_products_for_group [ex_product] ! 0) ''attack_3'' = None"
    by (simp add: prune_row_def ex_base)
  from t have b1: "(fetch_products_for_group [ex_product] ! 0) ''attack_1'' =
      attack_values (extendedData ([ex_product] ! 0)) ! 0"
    and b2: "(fetch_products_for_group [ex_product] ! 0) ''attack_2'' =
      attack_values (extendedData ([ex_product] ! 0)) ! 1"
    by blast+
  have "(fetch_products_for_group [ex_product] ! 0) ''attack_1'' = Some (StrC ''Gnaw'')"
    and "(fetch_products_for_group [ex_product] ! 0) ''attack_2'' = Some (StrC ''Thunder Jolt'')"
    by (simp_all add: b1 b2 ex_attacks)
  with h1 h2 a3 show ?thesis by blast
qed

section \<open>Removing duplicates and joining\<close>

lemma set_drop_duplicates_subset: "set (drop_duplicates key xs) \<subseteq> set xs"
  by (induction key xs rule: drop_duplicates.induct) auto

lemma keys_drop_duplicates: "key ` set (drop_duplicates key xs) = key ` set xs"
proof (induction key xs rule: drop_duplicates.induct)
  case (1 key)
  then show ?case by simp
next
  case (2 key x xs)
  have "key ` set (x # xs) = insert (key x) (key ` set (filter (\<lambda>y. key y \<noteq> key x) xs))"
    by auto
  with 2 show ?case by simp
qed

lemma distinct_drop_duplicates: "distinct (map key (drop_duplicates key xs))"
proof (induction key xs rule: drop_duplicates.induct)
  case (1 key)
  then show ?case by simp
next
  case (2 key x xs)
  have "key x \<notin> key ` set (drop_duplicates key (filter (\<lambda>y. key y \<noteq> key x) xs))"
    by (auto simp: keys_drop_duplicates)
  with 2 show ?case by simp
qed

lemma drop_duplicates_distinct: "distinct (map key xs) \<Longrightarrow> drop_duplicates key xs = xs"
proof (induction xs)
  case Nil
  then show ?case by simp
next
  case (Cons x xs)
  from Cons.prems have "\<forall>y \<in> set xs. key y \<noteq> key x"
    by (metis distinct.simps(2) imageI list.simps(9) set_map)
  then have "filter (\<lambda>y. key y \<noteq> key x) xs = xs"
    by (simp add: filter_id_conv)
  with Cons show ?case by simp
qed

lemma drop_duplicates_filter:
  "drop_duplicates key (filter (\<lambda>y. key y \<noteq> k) xs) = filter (\<lambda>y. key y \<noteq> k) (drop_duplicates key xs)"
proof (induction key xs rule: drop_duplicates.induct)
  case (1 key)
  then show ?case by simp
next
  case (2 key x xs)
  have comm: "filter (\<lambda>y. key y \<noteq> key x) (filter (\<lambda>y. key y \<noteq> k) xs) =
        filter (\<lambda>y. key y \<noteq> k) (filter (\<lambda>y. key y \<noteq> key x) xs)"
    by (simp add: conj_commute)
  show ?case
  proof (cases "key x = k")
    case True
    have "filter (\<lambda>y. key y \<noteq> k) (filter (\<lambda>y. key y \<noteq> k) xs) = filter (\<lambda>y. key y \<noteq> k) xs"
      by simp
    with True 2 show ?thesis by simp
  next
    case False
    with 2 comm show ?thesis by simp
  qed
qed

lemma drop_duplicates_append:
  "drop_duplicates key (xs @ ys) =
     drop_duplicates key xs @ drop_duplicates key (filter (\<lambda>y. key y \<notin> key ` set xs) ys)"
proof (induction key xs arbitrary: ys rule: drop_duplicates.induct)
  case (1 key)
  then show ?case by simp
next
  case (2 key x xs)
  let ?P = "\<lambda>y. key y \<noteq> key x"
  have "drop_duplicates key ((x # xs) @ ys) = x # drop_duplicates key (filter ?P xs @ filter ?P ys)"
    by simp
  also have "\<dots> = x # drop_duplicates key (filter ?P xs) @
       drop_duplicates key (filter (\<lambda>y. key y \<notin> key ` set (filter ?P xs)) (filter ?P ys))"
    by (simp add: 2)
  also have "filter (\<lambda>y. key y \<notin> key ` set (filter ?P xs)) (filter ?P ys) =
       filter (\<lambda>y. key y \<notin> key ` set (x # xs)) ys"
    by (auto intro!: filter_cong)
  finally show ?case by simp
qed

lemma drop_duplicates_nonempty: "xs \<noteq> [] \<Longrightarrow> drop_duplicates key xs \<noteq> []"
  by (cases xs) auto

lemma length_drop_duplicates: "length (drop_duplicates key xs) \<le> length xs"
proof (induction key xs rule: drop_duplicates.induct)
  case (1 key)
  then show ?case by simp
next
  case (2 key x xs)
  have "length (drop_duplicates key (filter (\<lambda>y. key y \<noteq> key x) xs))
      \<le> length (filter (\<lambda>y. key y \<noteq> key x) xs)"
    by (rule 2)
  also have "\<dots> \<le> length xs" by simp
  finally show ?case by simp
qed

text \<open>Left joins.\<close>

lemma merge_left_Nil: "merge_left on_keys [] right = []"
  by (simp add: merge_left_def)

lemma merge_left_Cons:
  "merge_left on_keys (l # left) right =
     (case filter (on_keys l) right of [] \<Rightarrow> [(l, None)] | ms \<Rightarrow> map (\<lambda>r. (l, Some r)) ms)
     @ merge_left on_keys left right"
  by (simp add: merge_left_def)

lemma length_merge_left: "length left \<le> length (merge_left on_keys left right)"
  by (induction left) (auto simp: merge_left_Nil merge_left_Cons split: list.splits)

lemma fst_set_merge_left: "fst ` set (merge_left on_keys left right) = set left"
  by (induction left) (auto simp: merge_left_Nil merge_left_Cons image_Un split: list.splits)

lemma merge_left_unmatched:
  "l \<in> set left \<Longrightarrow> filter (on_keys l) right = [] \<Longrightarrow> (l, None) \<in> set (merge_left on_keys left right)"
  by (induction left) (auto simp: merge_left_Nil merge_left_Cons split: list.splits)

lemma merge_left_Some_matches:
  "(l, Some r) \<in> set (merge_left on_keys left right) \<Longrightarrow> r \<in> set right \<and> on_keys l r"
proof (induction left)
  case Nil
  then show ?case by (simp add: merge_left_Nil)
next
  case (Cons a left)
  show ?case
  proof (cases "(l, Some r) \<in> set (merge_left on_keys left right)")
    case True
    then show ?thesis by (rule Cons.IH)
  next
    case False
    with Cons.prems have "(l, Some r) \<in> set (case filter (on_keys a) right of [] \<Rightarrow> [(a, None)] | ms \<Rightarrow> map (\<lambda>r. (a, Some r)) ms)"
      by (simp add: merge_left_Cons)
    then have "(l, Some r) \<in> set (map (\<lambda>r. (a, Some r)) (filter (on_keys a) right))"
      by (cases "filter (on_keys a) right") auto
    then show ?thesis by auto
  qed
qed

lemma merge_left_None_unmatched:
  "(l, None) \<in> set (merge_left on_keys left right) \<Longrightarrow> filter (on_keys l) right = []"
proof (induction left)
  case Nil
  then show ?case by (simp add: merge_left_Nil)
next
  case (Cons a left)
  show ?case
  proof (cases "(l, None) \<in> set (merge_left on_keys left right)")
    case True
    then show ?thesis by (rule Cons.IH)
  next
    case False
    with Cons.prems have
      "(l, None) \<in> set (case filter (on_keys a) right of [] \<Rightarrow> [(a, None)]
                          | ms \<Rightarrow> map (\<lambda>r. (a, Some r)) ms)"
      by (simp add: merge_left_Cons)
    then show ?thesis by (cases "filter (on_keys a) right") auto
  qed
qed


section \<open>Properties of the Merge Engine\<close>

lemma dedup_key_fact: "dedup_key m = fact_key (fact m)"
  by (simp add: dedup_key_def fact_key_def)

lemma length_join_day: "length day_prices \<le> length (join_day day_prices products_df groups_df)"
proof -
  have "length day_prices \<le> length (merge_left on_products day_prices products_df)"
    by (rule length_merge_left)
  also have "\<dots> \<le> length (merge_left on_groups (merge_left on_products day_prices products_df) groups_df)"
    by (rule length_merge_left)
  finally show ?thesis by (simp add: join_day_def)
qed

lemma fact_set_join_day: "fact ` set (join_day day_prices products_df groups_df) = set day_prices"
proof -
  let ?m1 = "merge_left on_products day_prices products_df"
  let ?m2 = "merge_left on_groups ?m1 groups_df"
  have "fact ` set (join_day day_prices products_df groups_df) = (fst \<circ> fst) ` set ?m2"
    by (force simp: join_day_def image_iff split: prod.splits)
  also have "\<dots> = fst ` (fst ` set ?m2)" by (simp add: image_comp)
  also have "\<dots> = set day_prices" by (simp add: fst_set_merge_left)
  finally show ?thesis .
qed

lemma join_day_unmatched:
  assumes "r \<in> set day_prices"
    and "\<forall>p \<in> set products_df. \<not> on_products r p"
    and "\<forall>g \<in> set groups_df. \<not> on_groups (r, None) g"
  shows "\<lparr> fact = r, product_match = None, group_match = None \<rparr>
           \<in> set (join_day day_prices products_df groups_df)"
proof -
  have "filter (on_products r) products_df = []"
    using assms(2) by (simp add: filter_empty_conv)
  then have 1: "(r, None) \<in> set (merge_left on_products day_prices products_df)"
    using assms(1) by (rule merge_left_unmatched [rotated])
  have "filter (on_groups (r, None)) groups_df = []"
    using assms(3) by (simp add: filter_empty_conv)
  then have "((r, None), None) \<in>
      set (merge_left on_groups (merge_left on_products day_prices products_df) groups_df)"
    using 1 by (rule merge_left_unmatched [rotated])
  then show ?thesis by (force simp: join_day_def)
qed

lemma keys_merged_rows:
  "dedup_key ` set (merged_rows day_prices products_df groups_df) = fact_key ` set day_prices"
proof -
  have "dedup_key ` set (merged_rows day_prices products_df groups_df) =
        dedup_key ` set (join_day day_prices products_df groups_df)"
    by (simp add: merged_rows_def keys_drop_duplicates)
  also have "\<dots> = fact_key ` (fact ` set (join_day day_prices products_df groups_df))"
    by (simp add: image_comp dedup_key_fact [abs_def] comp_def)
  finally show ?thesis by (simp add: fact_set_join_day)
qed

lemma distinct_merged_rows: "distinct (map dedup_key (merged_rows day_prices products_df groups_df))"
  by (simp add: merged_rows_def distinct_drop_duplicates)

lemma fact_merged_rows_subset:
  "m \<in> set (merged_rows day_prices products_df groups_df) \<Longrightarrow> fact m \<in> set day_prices"
proof -
  assume "m \<in> set (merged_rows day_prices products_df groups_df)"
  then have "m \<in> set (join_day day_prices products_df groups_df)"
    using set_drop_duplicates_subset [of dedup_key] by (auto simp: merged_rows_def)
  then have "fact m \<in> fact ` set (join_day day_prices products_df groups_df)" by (rule imageI)
  then show ?thesis by (simp add: fact_set_join_day)
qed

lemma merged_rows_nonempty:
  "day_prices \<noteq> [] \<Longrightarrow> merged_rows day_prices products_df groups_df \<noteq> []"
proof -
  assume "day_prices \<noteq> []"
  then have "0 < length (join_day day_prices products_df groups_df)"
    using length_join_day [of day_prices products_df groups_df] by (cases day_prices) auto
  then show ?thesis by (simp add: merged_rows_def drop_duplicates_nonempty)
qed

lemma merged_rows_distinct_raw:
  assumes "distinct (map fact_key day_prices)"
  shows "fact ` set (merged_rows day_prices products_df groups_df) = set day_prices"
    and "length (merged_rows day_prices products_df groups_df) = length day_prices"
proof -
  let ?E = "merged_rows day_prices products_df groups_df"
  have inj: "inj_on fact_key (set day_prices)"
    using assms by (simp add: distinct_map)
  show "fact ` set ?E = set day_prices"
  proof
    show "fact ` set ?E \<subseteq> set day_prices" using fact_merged_rows_subset by auto
    show "set day_prices \<subseteq> fact ` set ?E"
    proof
      fix r assume r: "r \<in> set day_prices"
      then have "fact_key r \<in> dedup_key ` set ?E" by (simp add: keys_merged_rows)
      then obtain m where m: "m \<in> set ?E" "dedup_key m = fact_key r" by auto
      then have "fact m \<in> set day_prices" using fact_merged_rows_subset by auto
      with inj r m(2) have "fact m = r" by (auto simp: dedup_key_fact dest: inj_onD)
      with m(1) show "r \<in> fact ` set ?E" by auto
    qed
  qed
  have "length ?E = card (dedup_key ` set ?E)"
    using distinct_merged_rows [of day_prices products_df groups_df]
    by (metis distinct_card length_map set_map)
  also have "\<dots> = card (fact_key ` set day_prices)" by (simp add: keys_merged_rows)
  also have "\<dots> = length day_prices"
    using assms by (metis distinct_card length_map set_map)
  finally show "length ?E = length day_prices" .
qed

lemma merged_rows_partition_ok:
  assumes "raw_partition_ok d day_prices"
  shows "partition_ok d (merged_rows day_prices products_df groups_df)"
  using assms fact_merged_rows_subset [of _ day_prices products_df groups_df]
  by (auto simp: raw_partition_ok_def partition_ok_def distinct_merged_rows merged_rows_nonempty)

lemma daily_ok_Nil: "daily_ok []"
  by (simp add: daily_ok_def)

lemma daily_ok_Cons:
  "daily_ok (f # fs) \<longleftrightarrow> fst f \<notin> fst ` set fs \<and> partition_ok (fst f) (snd f) \<and> daily_ok fs"
  by (auto simp: daily_ok_def)

lemma dates_of_daily_ok:
  "daily_ok fs \<Longrightarrow> m \<in> set (concat (map snd fs)) \<Longrightarrow> \<exists>d \<in> fst ` set fs. fact m ''date'' = Some (DayC d)"
  by (induction fs) (auto simp: daily_ok_Cons partition_ok_def)

lemma distinct_rollup_of_daily_ok:
  "daily_ok fs \<Longrightarrow> distinct (map dedup_key (concat (map snd fs)))"
proof (induction fs)
  case Nil
  then show ?case by simp
next
  case (Cons f fs)
  then have ok: "fst f \<notin> fst ` set fs" "partition_ok (fst f) (snd f)" "daily_ok fs"
    by (simp_all add: daily_ok_Cons)
  have disjoint: "dedup_key ` set (snd f) \<inter> dedup_key ` set (concat (map snd fs)) = {}"
  proof (rule ccontr)
    assume "dedup_key ` set (snd f) \<inter> dedup_key ` set (concat (map snd fs)) \<noteq> {}"
    then obtain k where "k \<in> dedup_key ` set (snd f)" "k \<in> dedup_key ` set (concat (map snd fs))"
      by blast
    then obtain m m' where m: "m \<in> set (snd f)" "m' \<in> set (concat (map snd fs))"
      "dedup_key m = dedup_key m'" by (metis imageE)
    from m(1) ok(2) have "fact m ''date'' = Some (DayC (fst f))" by (simp add: partition_ok_def)
    moreover from dates_of_daily_ok [OF ok(3) m(2)] obtain d where
      "d \<in> fst ` set fs" "fact m' ''date'' = Some (DayC d)" by auto
    moreover from m(3) have "fact m ''date'' = fact m' ''date''" by (simp add: dedup_key_def)
    ultimately show False using ok(1) by auto
  qed
  from ok(2) have "distinct (map dedup_key (snd f))" by (simp add: partition_ok_def)
  with Cons.IH [OF ok(3)] disjoint show ?case by simp
qed

text \<open>When the merge of a day returns, and what it raises otherwise.\<close>

lemma missing_column_None:
  "missing_column cs = None \<longleftrightarrow> (\<forall>x \<in> set cs. has_column (fst x) (snd x))"
  by (auto simp: missing_column_def find_None_iff)

lemma merge_day_Returned:
  "merge_day day_prices products_df groups_df = Returned E \<Longrightarrow>
   E = merged_rows day_prices products_df groups_df"
  by (auto simp: merge_day_def split: option.splits)

lemma merge_day_Raised:
  "merge_day day_prices products_df groups_df = Raised err \<Longrightarrow> \<exists>c. err = KeyError c"
  by (auto simp: merge_day_def split: option.splits)

lemma merge_day_returns_iff:
  "(\<exists>E. merge_day day_prices products_df groups_df = Returned E) \<longleftrightarrow>
     has_column ''groupid'' day_prices \<and> has_column ''product_id'' day_prices
     \<and> has_column ''date'' day_prices \<and> has_column ''sub_type_name'' day_prices
     \<and> has_column ''groupid'' products_df \<and> has_column ''product_id'' products_df
     \<and> has_column ''groupid'' groups_df"
proof -
  have "(\<exists>E. merge_day day_prices products_df groups_df = Returned E) \<longleftrightarrow>
      missing_column [(''groupid'', products_df), (''groupid'', day_prices),
                      (''product_id'', products_df), (''product_id'', day_prices)] = None
      \<and> missing_column [(''groupid'', groups_df), (''groupid'', day_prices)] = None
      \<and> missing_column [(''product_id'', day_prices), (''date'', day_prices),
                         (''sub_type_name'', day_prices)] = None"
    by (auto simp: merge_day_def split: option.splits)
  then show ?thesis by (auto simp: missing_column_None)
qed
section \<open>Left-join completeness\<close>

lemma on_groups_fst: "on_groups (r, x) g = on_groups (r, None) g"
  by (simp add: on_groups_def)

lemma join_day_rows:
  assumes "m \<in> set (join_day day_prices products_df groups_df)"
  shows "(fact m, product_match m) \<in> set (merge_left on_products day_prices products_df)"
    and "((fact m, product_match m), group_match m) \<in>
           set (merge_left on_groups (merge_left on_products day_prices products_df) groups_df)"
proof -
  let ?m1 = "merge_left on_products day_prices products_df"
  let ?m2 = "merge_left on_groups ?m1 groups_df"
  from assms obtain l p g where lpg: "((l, p), g) \<in> set ?m2"
    and m: "m = \<lparr> fact = l, product_match = p, group_match = g \<rparr>"
    by (auto simp: join_day_def)
  from lpg m show "((fact m, product_match m), group_match m) \<in> set ?m2" by simp
  have "(l, p) \<in> fst ` set ?m2" using lpg by force
  then show "(fact m, product_match m) \<in> set ?m1" by (simp add: fst_set_merge_left m)
qed

lemma join_day_matches:
  assumes "m \<in> set (join_day day_prices products_df groups_df)"
  shows "(\<forall>p. product_match m = Some p \<longrightarrow> p \<in> set products_df \<and> on_products (fact m) p)"
    and "(\<forall>g. group_match m = Some g \<longrightarrow>
            g \<in> set groups_df \<and> on_groups (fact m, product_match m) g)"
proof -
  note r = join_day_rows [OF assms]
  show "\<forall>p. product_match m = Some p \<longrightarrow> p \<in> set products_df \<and> on_products (fact m) p"
    using r(1) merge_left_Some_matches [of "fact m" _ on_products day_prices products_df] by auto
  show "\<forall>g. group_match m = Some g \<longrightarrow>
          g \<in> set groups_df \<and> on_groups (fact m, product_match m) g"
    using r(2) merge_left_Some_matches [of "(fact m, product_match m)" _ on_groups
        "merge_left on_products day_prices products_df" groups_df]
    by auto
qed

text \<open>Each side of a joined row is null exactly when its table has no match for the
  fact row, whatever the other side is.\<close>

lemma join_day_null_sides:
  assumes "m \<in> set (join_day day_prices products_df groups_df)"
  shows "product_match m = None \<longleftrightarrow> (\<forall>p \<in> set products_df. \<not> on_products (fact m) p)"
    and "group_match m = None \<longleftrightarrow>
           (\<forall>g \<in> set groups_df. \<not> on_groups (fact m, product_match m) g)"
proof -
  note r = join_day_rows [OF assms]
  note ms = join_day_matches [OF assms]
  show "product_match m = None \<longleftrightarrow> (\<forall>p \<in> set products_df. \<not> on_products (fact m) p)"
  proof
    assume "product_match m = None"
    with r(1) have "filter (on_products (fact m)) products_df = []"
      by (auto dest: merge_left_None_unmatched)
    then show "\<forall>p \<in> set products_df. \<not> on_products (fact m) p"
      by (simp add: filter_empty_conv)
  next
    assume "\<forall>p \<in> set products_df. \<not> on_products (fact m) p"
    with ms(1) show "product_match m = None" by (cases "product_match m") auto
  qed
  show "group_match m = None \<longleftrightarrow>
          (\<forall>g \<in> set groups_df. \<not> on_groups (fact m, product_match m) g)"
  proof
    assume "group_match m = None"
    with r(2) have "filter (on_groups (fact m, product_match m)) groups_df = []"
      by (auto dest: merge_left_None_unmatched)
    then show "\<forall>g \<in> set groups_df. \<not> on_groups (fact m, product_match m) g"
      by (simp add: filter_empty_conv)
  next
    assume "\<forall>g \<in> set groups_df. \<not> on_groups (fact m, product_match m) g"
    with ms(2) show "group_match m = None" by (cases "group_match m") auto
  qed
qed


lemma merged_rows_unmatched:
  assumes "distinct (map fact_key day_prices)" and "r \<in> set day_prices"
    and "\<forall>p \<in> set products_df. \<not> on_products r p"
    and "\<forall>g \<in> set groups_df. \<not> on_groups (r, None) g"
  shows "\<lparr> fact = r, product_match = None, group_match = None \<rparr>
           \<in> set (merged_rows day_prices products_df groups_df)"
proof -
  from merged_rows_distinct_raw(1) [OF assms(1)] assms(2)
  obtain m where m: "m \<in> set (merged_rows day_prices products_df groups_df)" "fact m = r"
    by (metis imageE)
  then have j: "m \<in> set (join_day day_prices products_df groups_df)"
    using set_drop_duplicates_subset [of dedup_key] by (auto simp: merged_rows_def)
  have p: "product_match m = None"
    using join_day_null_sides(1) [OF j] assms(3) m(2) by simp
  have "group_match m = None"
    using join_day_null_sides(2) [OF j] assms(4) m(2) p by simp
  with p have "m = \<lparr> fact = r, product_match = None, group_match = None \<rparr>"
    using m(2) by (cases m) simp
  with m(1) show ?thesis by simp
qed




text \<open>The example of day 5: the first price row has its product, the second has none,
  and no group matches.\<close>

lemma ex_on_products:
  "on_products ex_price_a (hd ex_products)" "\<not> on_products ex_price_b (hd ex_products)"
  "on_products ex_price_c (hd ex_products)"
  by (simp_all add: on_products_def ex_price_a_def ex_price_b_def ex_price_c_def ex_products_def)

lemma ex_on_groups:
  "\<not> on_groups (ex_price_a, x) (hd ex_groups)" "\<not> on_groups (ex_price_b, x) (hd ex_groups)"
  "\<not> on_groups (ex_price_c, x) (hd ex_groups)"
  by (simp_all add: on_groups_def ex_price_a_def ex_price_b_def ex_price_c_def ex_groups_def)

lemma ex_keys:
  "fact_key ex_price_a = (Some (IntC 1), Some (DayC 5), Some (StrC ''Normal''))"
  "fact_key ex_price_b = (Some (IntC 2), Some (DayC 5), Some (StrC ''Normal''))"
  "fact_key ex_price_c = (Some (IntC 1), Some (DayC 6), Some (StrC ''Normal''))"
  by (simp_all add: fact_key_def ex_price_a_def ex_price_b_def ex_price_c_def)

lemma ex_products_hd: "ex_products = [hd ex_products]" "ex_groups = [hd ex_groups]"
  by (simp_all add: ex_products_def ex_groups_def)

lemma ex_partition_rows:
  "ex_partition = [\<lparr> fact = ex_price_a, product_match = Some (hd ex_products), group_match = None \<rparr>,
                   \<lparr> fact = ex_price_b, product_match = None, group_match = None \<rparr>]"
proof -
  have "join_day [ex_price_a, ex_price_b] [hd ex_products] [hd ex_groups] =
     [\<lparr> fact = ex_price_a, product_match = Some (hd ex_products), group_match = None \<rparr>,
      \<lparr> fact = ex_price_b, product_match = None, group_match = None \<rparr>]"
    by (simp add: join_day_def merge_left_def ex_on_products ex_on_groups)
  then show ?thesis
    using ex_products_hd by (simp add: ex_partition_def merged_rows_def dedup_key_fact ex_keys)
qed

lemma ex_partition6_rows:
  "ex_partition6 = [\<lparr> fact = ex_price_c, product_match = Some (hd ex_products), group_match = None \<rparr>]"
proof -
  have "join_day [ex_price_c] [hd ex_products] [hd ex_groups] =
     [\<lparr> fact = ex_price_c, product_match = Some (hd ex_products), group_match = None \<rparr>]"
    by (simp add: join_day_def merge_left_def ex_on_products ex_on_groups)
  then show ?thesis
    using ex_products_hd by (simp add: ex_partition6_def merged_rows_def)
qed







section \<open>The dedup invariant\<close>

lemma build_full_file_unfold:
  "build_full_file s =
     (if rollup_up_to_date s then (Returned (), s)
      else if daily s = [] then (Raised ValueError, s)
      else (Returned (), s\<lparr> full_file := Parquet (concat (map snd (daily s))) \<rparr>))"
  by (simp add: build_full_file_def rollup_up_to_date_def Let_def)

lemma build_full_file_written:
  assumes "\<not> rollup_up_to_date s" and "fst (build_full_file s) = Returned ()"
  shows "daily s \<noteq> []"
    and "snd (build_full_file s) = s\<lparr> full_file := Parquet (concat (map snd (daily s))) \<rparr>"
  using assms by (auto simp: build_full_file_unfold split: if_splits)

lemma append_to_full_file_Parquet:
  assumes "full_file s = Parquet old_df" and "List.map_filter (\<lambda>d. map_of (daily s) d) new_days \<noteq> []"
  shows "append_to_full_file s new_days =
     (Returned (), s\<lparr> full_file := Parquet (drop_duplicates dedup_key
        (old_df @ concat (List.map_filter (\<lambda>d. map_of (daily s) d) new_days))) \<rparr>)"
  using assms by (simp add: append_to_full_file_def Let_def)

lemma append_to_full_file_NoFile:
  "full_file s = NoFile \<Longrightarrow> append_to_full_file s new_days = build_full_file s"
  by (simp add: append_to_full_file_def)

lemma rollup_up_to_date_NoFile: "full_file s = NoFile \<Longrightarrow> \<not> rollup_up_to_date s"
  by (simp add: rollup_up_to_date_def)

text \<open>
  Claim C1. No two rows of an enriched partition that the Merge Engine writes (the
  rows that the merge of a day returns) share \<open>(product_id, date, sub_type_name)\<close>. The same holds for a rollup that the full
  rebuild writes from enriched partitions as the Merge Engine leaves them (one per date
  directory, each dated as its directory), and for a rollup that the incremental append
  writes: after its own \<^verbatim>\<open>drop_duplicates\<close> when a rollup exists, through the full
  rebuild when none does.
\<close>

theorem dedup_invariant:
  "distinct (map dedup_key (merged_rows day_prices products_df groups_df))
   \<and> (\<forall>E. merge_day day_prices products_df groups_df = Returned E \<longrightarrow>
         E = merged_rows day_prices products_df groups_df \<and> distinct (map dedup_key E))
   \<and> (daily_ok (daily s) \<and> \<not> rollup_up_to_date s \<and> fst (build_full_file s) = Returned ()
        \<longrightarrow> (\<exists>df. full_file (snd (build_full_file s)) = Parquet df \<and> distinct (map dedup_key df)))
   \<and> ((\<exists>old_df. full_file s = Parquet old_df) \<and> List.map_filter (\<lambda>d. map_of (daily s) d) new_days \<noteq> []
        \<longrightarrow> fst (append_to_full_file s new_days) = Returned ()
            \<and> (\<exists>df. full_file (snd (append_to_full_file s new_days)) = Parquet df
                     \<and> distinct (map dedup_key df)))
   \<and> (daily_ok (daily s) \<and> full_file s = NoFile \<and> fst (append_to_full_file s new_days) = Returned ()
        \<longrightarrow> (\<exists>df. full_file (snd (append_to_full_file s new_days)) = Parquet df
                     \<and> distinct (map dedup_key df)))"
proof -
  have a: "distinct (map dedup_key (merged_rows day_prices products_df groups_df))"
    by (rule distinct_merged_rows)
  have a': "\<forall>E. merge_day day_prices products_df groups_df = Returned E \<longrightarrow>
         E = merged_rows day_prices products_df groups_df \<and> distinct (map dedup_key E)"
    using merge_day_Returned distinct_merged_rows by blast
  have b: "\<exists>df. full_file (snd (build_full_file s)) = Parquet df \<and> distinct (map dedup_key df)"
    if "daily_ok (daily s)" "\<not> rollup_up_to_date s" "fst (build_full_file s) = Returned ()"
    using build_full_file_written(2) [OF that(2,3)] distinct_rollup_of_daily_ok [OF that(1)]
    by simp
  have c: "fst (append_to_full_file s new_days) = Returned ()
            \<and> (\<exists>df. full_file (snd (append_to_full_file s new_days)) = Parquet df
                     \<and> distinct (map dedup_key df))"
    if "\<exists>old_df. full_file s = Parquet old_df" "List.map_filter (\<lambda>d. map_of (daily s) d) new_days \<noteq> []"
  proof -
    from that(1) obtain old_df where "full_file s = Parquet old_df" by blast
    from append_to_full_file_Parquet [OF this that(2)] show ?thesis
      by (simp add: distinct_drop_duplicates)
  qed
  have d: "\<exists>df. full_file (snd (append_to_full_file s new_days)) = Parquet df
                     \<and> distinct (map dedup_key df)"
    if "daily_ok (daily s)" "full_file s = NoFile" "fst (append_to_full_file s new_days) = Returned ()"
    using b [OF that(1) rollup_up_to_date_NoFile [OF that(2)]] that(3)
    by (simp add: append_to_full_file_NoFile [OF that(2)])
  from a a' b c d show ?thesis by blast
qed

lemma ex_raw_ok: "raw_partition_ok 5 [ex_price_a, ex_price_b]"
  by (simp add: raw_partition_ok_def ex_price_a_def ex_price_b_def)

lemma ex_daily_ok: "daily_ok (daily ex_disk)"
  using merged_rows_partition_ok [OF ex_raw_ok, of ex_products ex_groups]
  by (simp add: daily_ok_def ex_disk_def ex_partition_def)

lemma ex_not_up_to_date: "\<not> rollup_up_to_date ex_disk"
  by (simp add: rollup_up_to_date_def ex_disk_def)

lemma ex_build_returns: "fst (build_full_file ex_disk) = Returned ()"
  by (simp add: build_full_file_unfold ex_not_up_to_date) (simp add: ex_disk_def)

lemma ex_new_partitions: "List.map_filter (\<lambda>d. map_of (daily ex_disk_rollup) d) [5] \<noteq> []"
  by (simp add: ex_disk_rollup_def ex_disk_def List.map_filter_def)

theorem dedup_invariant_witness:
  "merge_day [ex_price_a, ex_price_b] ex_products ex_groups = Returned ex_partition
   \<and> distinct (map dedup_key ex_partition)
   \<and> daily_ok (daily ex_disk) \<and> \<not> rollup_up_to_date ex_disk \<and> fst (build_full_file ex_disk) = Returned ()
   \<and> (\<exists>df. full_file (snd (build_full_file ex_disk)) = Parquet df \<and> distinct (map dedup_key df))
   \<and> full_file ex_disk = NoFile \<and> fst (append_to_full_file ex_disk [5]) = Returned ()
   \<and> (\<exists>df. full_file (snd (append_to_full_file ex_disk [5])) = Parquet df \<and> distinct (map dedup_key df))
   \<and> (\<exists>old_df. full_file ex_disk_rollup = Parquet old_df)
   \<and> List.map_filter (\<lambda>d. map_of (daily ex_disk_rollup) d) [5] \<noteq> []
   \<and> (\<exists>df. full_file (snd (append_to_full_file ex_disk_rollup [5])) = Parquet df
           \<and> distinct (map dedup_key df))"
proof -
  have nofile: "full_file ex_disk = NoFile" by (simp add: ex_disk_def)
  have app: "fst (append_to_full_file ex_disk [5]) = Returned ()"
    using ex_build_returns by (simp add: append_to_full_file_NoFile [OF nofile])
  have old: "\<exists>old_df. full_file ex_disk_rollup = Parquet old_df"
    by (simp add: ex_disk_rollup_def)
  note t1 = dedup_invariant [of "[ex_price_a, ex_price_b]" ex_products ex_groups ex_disk "[5]"]
  note t2 = dedup_invariant [of _ _ _ ex_disk_rollup "[5]"]
  have "\<exists>E. merge_day [ex_price_a, ex_price_b] ex_products ex_groups = Returned E"
    unfolding merge_day_returns_iff
    by (simp add: has_column_def ex_price_a_def ex_products_def ex_groups_def)
  with t1 have
    0: "merge_day [ex_price_a, ex_price_b] ex_products ex_groups = Returned ex_partition
        \<and> distinct (map dedup_key ex_partition)"
    unfolding ex_partition_def by blast
  from t1 ex_daily_ok ex_not_up_to_date ex_build_returns have
    1: "\<exists>df. full_file (snd (build_full_file ex_disk)) = Parquet df \<and> distinct (map dedup_key df)"
    by blast
  from t1 ex_daily_ok nofile app have
    2: "\<exists>df. full_file (snd (append_to_full_file ex_disk [5])) = Parquet df \<and> distinct (map dedup_key df)"
    by blast
  from t2 old ex_new_partitions have
    3: "\<exists>df. full_file (snd (append_to_full_file ex_disk_rollup [5])) = Parquet df
           \<and> distinct (map dedup_key df)"
    by blast
  from 0 1 2 3 ex_daily_ok ex_not_up_to_date ex_build_returns nofile app old ex_new_partitions
  show ?thesis by blast
qed

section \<open>The retention bound\<close>

lemma fold_delete_filter:
  "fold AList.delete ds ps = filter (\<lambda>p. fst p \<notin> set ds) ps"
proof (induction ds arbitrary: ps)
  case Nil
  then show ?case by simp
next
  case (Cons d ds)
  have "fold AList.delete (d # ds) ps = fold AList.delete ds (AList.delete d ps)"
    by simp
  also have "\<dots> = filter (\<lambda>p. fst p \<notin> set ds) (AList.delete d ps)"
    by (rule Cons)
  also have "\<dots> = filter (\<lambda>p. fst p \<notin> set ds) (filter (\<lambda>(k', _). d \<noteq> k') ps)"
    by (simp only: AList.delete_eq)
  also have "\<dots> = filter (\<lambda>p. fst p \<notin> set (d # ds)) ps"
    unfolding filter_filter by (rule filter_cong [OF refl]) auto
  finally show ?case .
qed

lemma slice_to_nonneg: "0 \<le> k \<Longrightarrow> slice_to k xs = take (nat k) xs"
  by (simp add: slice_to_def)

lemma descending_take_drop:
  assumes "sorted (map uminus (xs :: int list))" and "distinct xs"
  shows "\<forall>a \<in> set (take n xs). \<forall>b \<in> set (drop n xs). b < a"
proof -
  have "sorted (map uminus (take n xs @ drop n xs))"
    using assms(1) by simp
  then have "sorted (map uminus (take n xs) @ map uminus (drop n xs))"
    by (simp only: map_append)
  then have le: "\<forall>a \<in> set (take n xs). \<forall>b \<in> set (drop n xs). - a \<le> - b"
    by (simp add: sorted_append)
  have disj: "set (take n xs) \<inter> set (drop n xs) = {}"
    using assms(2) by (rule set_take_disj_set_drop_if_distinct) simp
  show ?thesis
  proof (intro ballI)
    fix a b assume a: "a \<in> set (take n xs)" and b: "b \<in> set (drop n xs)"
    with le have "- a \<le> - b" by blast
    then have "b \<le> a" by simp
    moreover from a b disj have "a \<noteq> b" by blast
    ultimately show "b < a" by simp
  qed
qed



lemma prune_old_daily_prices_eq:
  assumes "distinct (map fst (daily_prices s))" and "0 \<le> keep_days"
  shows "daily_prices (prune_old_daily_prices keep_days s) =
     filter (\<lambda>p. fst p \<in> set (take (nat keep_days) (sort_key uminus (map fst (daily_prices s)))))
       (daily_prices s)"
proof -
  let ?S = "sort_key uminus (map fst (daily_prices s))"
  let ?keep = "set (take (nat keep_days) ?S)"
  have dS: "distinct ?S" using assms(1) by simp
  have "filter (\<lambda>p. p \<notin> ?keep) ?S = filter (\<lambda>p. p \<notin> ?keep) (take (nat keep_days) ?S @ drop (nat keep_days) ?S)"
    by simp
  also have "\<dots> = filter (\<lambda>p. p \<notin> ?keep) (drop (nat keep_days) ?S)"
    unfolding filter_append by (simp add: filter_empty_conv)
  also have "\<dots> = drop (nat keep_days) ?S"
  proof -
    have "set (take (nat keep_days) ?S) \<inter> set (drop (nat keep_days) ?S) = {}"
      using dS by (rule set_take_disj_set_drop_if_distinct) simp
    then have "\<forall>p \<in> set (drop (nat keep_days) ?S). p \<notin> ?keep" by blast
    then show ?thesis by (simp add: filter_id_conv)
  qed
  finally have del: "filter (\<lambda>p. p \<notin> ?keep) ?S = drop (nat keep_days) ?S" .
  have split: "set ?S = ?keep \<union> set (drop (nat keep_days) ?S)"
    by (metis append_take_drop_id set_append)
  have disj: "?keep \<inter> set (drop (nat keep_days) ?S) = {}"
    using dS by (rule set_take_disj_set_drop_if_distinct) simp
  have "daily_prices (prune_old_daily_prices keep_days s) =
      fold AList.delete (filter (\<lambda>p. p \<notin> ?keep) ?S) (daily_prices s)"
    using assms(2) by (simp add: prune_old_daily_prices_def Let_def slice_to_nonneg)
  also have "\<dots> = fold AList.delete (drop (nat keep_days) ?S) (daily_prices s)"
    by (simp only: del)
  also have "\<dots> = filter (\<lambda>p. fst p \<notin> set (drop (nat keep_days) ?S)) (daily_prices s)"
    by (rule fold_delete_filter)
  also have "\<dots> = filter (\<lambda>p. fst p \<in> ?keep) (daily_prices s)"
  proof (rule filter_cong [OF refl])
    fix p assume "p \<in> set (daily_prices s)"
    then have "fst p \<in> set ?S" by simp
    with split disj show "(fst p \<notin> set (drop (nat keep_days) ?S)) = (fst p \<in> ?keep)" by blast
  qed
  finally show ?thesis .
qed

lemma prune_other_fields:
  "daily (prune_old_daily_prices k s) = daily s"
  "full_file (prune_old_daily_prices k s) = full_file s"
  "processed_days (prune_old_daily_prices k s) = processed_days s"
  "processed_products (prune_old_daily_prices k s) = processed_products s"
  "groups_file (prune_old_daily_prices k s) = groups_file s"
  "products_file (prune_old_daily_prices k s) = products_file s"
  by (simp_all add: prune_old_daily_prices_def Let_def)


text \<open>
  Claim C9. After the pruner has run with \<open>keep_days = K \<ge> 0\<close>, the raw directory holds
  at most \<open>K\<close> partitions (exactly \<open>K\<close>, or all of them when there were fewer); every
  partition that is kept is one that was there, with its content, and is newer than
  every partition that was removed; the enriched partitions and the rollup are as
  before. \<^verbatim>\<open>main\<close> calls the pruner with \<open>K = 7\<close>.
\<close>

theorem retention_bound:
  assumes "distinct (map fst (daily_prices s))" and "0 \<le> keep_days"
  shows "length (daily_prices (prune_old_daily_prices keep_days s)) \<le> nat keep_days
    \<and> length (daily_prices (prune_old_daily_prices keep_days s))
        = min (nat keep_days) (length (daily_prices s))
    \<and> set (daily_prices (prune_old_daily_prices keep_days s)) \<subseteq> set (daily_prices s)
    \<and> distinct (map fst (daily_prices (prune_old_daily_prices keep_days s)))
    \<and> (\<forall>kept \<in> fst ` set (daily_prices (prune_old_daily_prices keep_days s)).
        \<forall>gone \<in> fst ` set (daily_prices s) - fst ` set (daily_prices (prune_old_daily_prices keep_days s)).
          gone < kept)
    \<and> daily (prune_old_daily_prices keep_days s) = daily s
    \<and> full_file (prune_old_daily_prices keep_days s) = full_file s"
proof -
  let ?ps = "daily_prices s"
  let ?S = "sort_key uminus (map fst ?ps)"
  let ?keep = "set (take (nat keep_days) ?S)"
  let ?ps' = "daily_prices (prune_old_daily_prices keep_days s)"
  have eq: "?ps' = filter (\<lambda>p. fst p \<in> ?keep) ?ps"
    by (rule prune_old_daily_prices_eq [OF assms])
  have dS: "distinct ?S" using assms(1) by simp
  have keep_sub: "?keep \<subseteq> fst ` set ?ps"
    using set_take_subset [of "nat keep_days" ?S] by auto
  have fst_eq: "fst ` set ?ps' = ?keep"
    using keep_sub by (auto simp: eq)
  have dist': "distinct (map fst ?ps')"
    using assms(1) by (simp add: eq distinct_map_filter)
  have "length ?ps' = card (fst ` set ?ps')"
    using dist' by (metis distinct_card length_map set_map)
  also have "\<dots> = card ?keep" by (simp only: fst_eq)
  also have "\<dots> = length (take (nat keep_days) ?S)"
    using dS by (simp add: distinct_card)
  also have "\<dots> = min (nat keep_days) (length ?ps)" by (simp add: min.commute)
  finally have len: "length ?ps' = min (nat keep_days) (length ?ps)" .
  have newer: "\<forall>kept \<in> fst ` set ?ps'. \<forall>gone \<in> fst ` set ?ps - fst ` set ?ps'. gone < kept"
  proof (intro ballI)
    fix kept gone
    assume k: "kept \<in> fst ` set ?ps'" and g: "gone \<in> fst ` set ?ps - fst ` set ?ps'"
    from k have k': "kept \<in> set (take (nat keep_days) ?S)" by (simp only: fst_eq)
    from g have "gone \<in> set ?S" "gone \<notin> ?keep" by (simp_all add: fst_eq)
    then have "gone \<in> set (drop (nat keep_days) ?S)"
      by (metis Un_iff append_take_drop_id set_append)
    moreover have "sorted (map uminus ?S)" by simp
    ultimately show "gone < kept" using descending_take_drop [OF _ dS] k' by blast
  qed
  have sub: "set ?ps' \<subseteq> set ?ps" by (auto simp: eq)
  from len have "length ?ps' \<le> nat keep_days" by simp
  with len sub dist' newer show ?thesis
    by (simp only: prune_other_fields)
qed


lemma ex_raw_disk_distinct: "distinct (map fst (daily_prices ex_raw_disk))"
  by (simp add: ex_raw_disk_def)

lemma ex_raw_disk_pruned:
  "daily_prices (prune_old_daily_prices 2 ex_raw_disk) = [(3, [ex_price_a]), (4, [ex_price_b])]"
  by (simp add: prune_old_daily_prices_def slice_to_def Let_def ex_raw_disk_def AList.delete_eq)

theorem retention_bound_witness:
  "distinct (map fst (daily_prices ex_raw_disk)) \<and> (0::int) \<le> 2
   \<and> length (daily_prices (prune_old_daily_prices 2 ex_raw_disk)) \<le> nat 2
   \<and> daily_prices (prune_old_daily_prices 2 ex_raw_disk) = [(3, [ex_price_a]), (4, [ex_price_b])]
   \<and> daily (prune_old_daily_prices 2 ex_raw_disk) = daily ex_raw_disk
   \<and> full_file (prune_old_daily_prices 2 ex_raw_disk) = full_file ex_raw_disk"
proof -
  have h: "(0::int) \<le> 2" by simp
  from retention_bound [OF ex_raw_disk_distinct h] ex_raw_disk_distinct ex_raw_disk_pruned h
  show ?thesis by blast
qed

section \<open>The products cache\<close>

lemma products_loop_products_file:
  "products_loop e processed gids (acc, s) = (acc', s') \<Longrightarrow> products_file s' = products_file s"
proof (induction gids arbitrary: acc s)
  case Nil
  then show ?case by simp
next
  case (Cons gid gids)
  show ?case
  proof (cases "gid \<in> set processed \<and> products_file s \<noteq> None")
    case True
    with Cons.prems have "products_loop e processed gids (acc, s) = (acc', s')" by simp
    then show ?thesis by (rule Cons.IH)
  next
    case False
    show ?thesis
    proof (cases "api_products e gid")
      case None
      with False Cons.prems have "products_loop e processed gids (acc, s) = (acc', s')" by auto
      then show ?thesis by (rule Cons.IH)
    next
      case (Some data)
      show ?thesis
      proof (cases "df_empty (fetch_products_for_group data)")
        case True
        with False Some Cons.prems have "products_loop e processed gids (acc, s) = (acc', s')"
          by auto
        then show ?thesis by (rule Cons.IH)
      next
        case nonempty: False
        with False Some Cons.prems have
          "products_loop e processed gids
             (acc @ [set_column ''group_id'' (StrC gid) (fetch_products_for_group data)],
              s\<lparr> processed_products := processed_products s @ [gid] \<rparr>) = (acc', s')"
          by (auto simp: Let_def)
        from Cons.IH [OF this] show ?thesis by simp
      qed
    qed
  qed
qed

lemma load_groups_products_file:
  "load_groups e s = Returned (g, s1) \<Longrightarrow> products_file s1 = products_file s"
  by (auto simp: load_groups_def split: option.splits)

text \<open>
  Claim C5, as the code has it. When the run of the Dimension Builder fetched new product
  rows, the cache it persists is the prior cache's rows followed by the new rows, as
  they are: \<^verbatim>\<open>to_parquet\<close> runs before \<^verbatim>\<open>drop_duplicates\<close>. The table it returns is
  that concatenation (its key column renamed) without exact duplicates, first
  occurrences kept.
\<close>

theorem products_cache_after_fetch:
  assumes "load_groups e s = Returned (groups_df, s1)"
    and "has_column ''group_id'' groups_df"
    and "products_loop e (processed_products s1) (group_ids groups_df) ([], s1) = (all_products, s2)"
    and "all_products \<noteq> []"
  shows "products_file (snd (build_products_and_groups e s))
           = Some (cached_products s @ concat all_products)
    \<and> fst (build_products_and_groups e s)
           = Returned (rename_column ''group_id'' ''groupid'' groups_df,
               drop_duplicates id
                 (rename_column ''group_id'' ''groupid'' (cached_products s @ concat all_products)))"
proof -
  have pf: "products_file s2 = products_file s"
    using products_loop_products_file [OF assms(3)] load_groups_products_file [OF assms(1)]
    by simp
  show ?thesis
    using assms by (simp add: build_products_and_groups_def Let_def pf cached_products_def
        split: option.splits)
qed

lemma ex_product_row: "hd (fetch_products_for_group [ex_product]) ''attack_1'' = Some (StrC ''Gnaw'')"
  by code_simp

lemma ex_fetch_single: "fetch_products_for_group [ex_product] = [prune_row (flatten_product ex_product)]"
  by (simp add: fetch_products_for_group_def drop_prune_cols_def)

lemma ex_fetch_not_empty: "\<not> df_empty (fetch_products_for_group [ex_product])"
proof
  assume "df_empty (fetch_products_for_group [ex_product])"
  then have "hd (fetch_products_for_group [ex_product]) = Map.empty"
    by (simp add: df_empty_def ex_fetch_single)
  then have "hd (fetch_products_for_group [ex_product]) ''attack_1'' = None" by simp
  with ex_product_row show False by simp
qed

lemma ex_cache_single: "\<exists>r. ex_cache = [r]"
  by (simp add: ex_cache_def set_column_def ex_fetch_single)

lemma ex_load_groups:
  "load_groups ex_env ex_disk_cache = Returned ([[''group_id'' \<mapsto> IntC 604]], ex_disk_cache)"
  by (simp add: load_groups_def ex_disk_cache_def)

lemma ex_has_group_id: "has_column ''group_id'' [[''group_id'' \<mapsto> IntC 604]]"
  by (simp add: has_column_def)

lemma str_604: "str_of_int 604 = ''604''"
  by code_simp

lemma ex_group_ids: "group_ids [[''group_id'' \<mapsto> IntC 604]] = [''604'']"
  by (simp add: group_ids_def unique_def str_604)

lemma ex_products_loop:
  "products_loop ex_env (processed_products ex_disk_cache) (group_ids [[''group_id'' \<mapsto> IntC 604]])
     ([], ex_disk_cache)
   = ([ex_cache], ex_disk_cache\<lparr> processed_products := [''604''] \<rparr>)"
  using ex_fetch_not_empty
  by (simp add: ex_group_ids) (simp add: ex_env_def ex_disk_cache_def ex_cache_def Let_def)

theorem products_cache_after_fetch_witness:
  "load_groups ex_env ex_disk_cache = Returned ([[''group_id'' \<mapsto> IntC 604]], ex_disk_cache)
   \<and> has_column ''group_id'' [[''group_id'' \<mapsto> IntC 604]]
   \<and> products_loop ex_env (processed_products ex_disk_cache)
        (group_ids [[''group_id'' \<mapsto> IntC 604]]) ([], ex_disk_cache)
      = ([ex_cache], ex_disk_cache\<lparr> processed_products := [''604''] \<rparr>)
   \<and> products_file (snd (build_products_and_groups ex_env ex_disk_cache)) = Some (ex_cache @ ex_cache)"
proof -
  have ne: "[ex_cache] \<noteq> []" by simp
  have "cached_products ex_disk_cache = ex_cache"
    by (simp add: cached_products_def ex_disk_cache_def)
  with products_cache_after_fetch [OF ex_load_groups ex_has_group_id ex_products_loop ne]
  have "products_file (snd (build_products_and_groups ex_env ex_disk_cache)) = Some (ex_cache @ ex_cache)"
    by simp
  with ex_load_groups ex_has_group_id ex_products_loop show ?thesis by simp
qed

text \<open>
  Claim C5 as the specification words it fails: group 604 is in the cache but not in
  \<^verbatim>\<open>processed_products.txt\<close>, so its one product is fetched again; the persisted
  cache then holds the row twice, and is not the deduplicated concatenation.
\<close>

theorem products_cache_counterexample:
  "fst (products_loop ex_env (processed_products ex_disk_cache)
          (group_ids [[''group_id'' \<mapsto> IntC 604]]) ([], ex_disk_cache)) \<noteq> []
   \<and> products_file (snd (build_products_and_groups ex_env ex_disk_cache))
       \<noteq> Some (drop_duplicates id (cached_products ex_disk_cache @
            concat (fst (products_loop ex_env (processed_products ex_disk_cache)
              (group_ids [[''group_id'' \<mapsto> IntC 604]]) ([], ex_disk_cache)))))"
proof -
  obtain r where r: "ex_cache = [r]" using ex_cache_single by blast
  have cached: "cached_products ex_disk_cache = ex_cache"
    by (simp add: cached_products_def ex_disk_cache_def)
  have pf: "products_file ex_disk_cache = Some ex_cache"
    by (simp add: ex_disk_cache_def)
  have "products_file (snd (build_products_and_groups ex_env ex_disk_cache)) = Some (ex_cache @ ex_cache)"
    using ex_has_group_id
    by (simp add: build_products_and_groups_def ex_load_groups ex_products_loop pf Let_def)
  moreover have "drop_duplicates id (ex_cache @ ex_cache) = [r]" by (simp add: r)
  ultimately show ?thesis by (simp add: ex_products_loop cached r)
qed

section \<open>The rollup\<close>

lemma date_values_of_daily_ok:
  "daily_ok fs \<Longrightarrow> date_values (concat (map snd fs)) = partition_dates fs"
proof (induction fs)
  case Nil
  then show ?case by (simp add: date_values_def partition_dates_def)
next
  case (Cons f fs)
  then have ok: "partition_ok (fst f) (snd f)" "daily_ok fs" by (simp_all add: daily_ok_Cons)
  from ok(1) have "date_values (snd f) = {Some (DayC (fst f))}"
    by (cases "snd f") (auto simp: partition_ok_def date_values_def)
  moreover have "date_values (concat (map snd (f # fs))) =
      date_values (snd f) \<union> date_values (concat (map snd fs))"
    by (simp add: date_values_def)
  moreover have "partition_dates (f # fs) = insert (Some (DayC (fst f))) (partition_dates fs)"
    by (simp add: partition_dates_def)
  ultimately show ?case using Cons.IH [OF ok(2)] by simp
qed

lemma build_full_file_no_partitions:
  "\<not> rollup_up_to_date s \<Longrightarrow> daily s = [] \<Longrightarrow> build_full_file s = (Raised ValueError, s)"
  by (simp add: build_full_file_unfold)

lemma rollup_up_to_date_iff:
  "rollup_up_to_date s \<longleftrightarrow>
     (full_file s = Unreadable \<and> daily s = [])
     \<or> (\<exists>old_df. full_file s = Parquet old_df \<and> date_values old_df = partition_dates (daily s))"
  by (cases "full_file s") (auto simp: rollup_up_to_date_def partition_dates_def)

text \<open>
  The full rebuild leaves the base directory as it is when the rollup file exists and
  its set of \<open>date\<close> values equals the set of dates of the enriched partition
  directories (a file that cannot be read counts as having no date). Otherwise, with at
  least one enriched partition on disk, it overwrites the rollup with the concatenation
  of the partitions, in listing order; for partitions as the Merge Engine writes them
  the dates of the new rollup are then the dates of the partition directories.
\<close>

lemma build_full_file_with_partitions:
  "(rollup_up_to_date s \<longleftrightarrow>
      (full_file s = Unreadable \<and> daily s = [])
      \<or> (\<exists>old_df. full_file s = Parquet old_df \<and> date_values old_df = partition_dates (daily s)))
   \<and> (rollup_up_to_date s \<longrightarrow> build_full_file s = (Returned (), s))
   \<and> (\<not> rollup_up_to_date s \<and> daily s \<noteq> [] \<longrightarrow>
        build_full_file s = (Returned (), s\<lparr> full_file := Parquet (concat (map snd (daily s))) \<rparr>))
   \<and> (\<not> rollup_up_to_date s \<and> daily s \<noteq> [] \<and> daily_ok (daily s) \<longrightarrow>
        (\<exists>df. full_file (snd (build_full_file s)) = Parquet df
              \<and> date_values df = partition_dates (daily (snd (build_full_file s)))))"
proof -
  have a: "rollup_up_to_date s \<longrightarrow> build_full_file s = (Returned (), s)"
    by (simp add: build_full_file_unfold)
  have b: "\<not> rollup_up_to_date s \<and> daily s \<noteq> [] \<longrightarrow>
        build_full_file s = (Returned (), s\<lparr> full_file := Parquet (concat (map snd (daily s))) \<rparr>)"
    by (simp add: build_full_file_unfold)
  have c: "\<not> rollup_up_to_date s \<and> daily s \<noteq> [] \<and> daily_ok (daily s) \<longrightarrow>
        (\<exists>df. full_file (snd (build_full_file s)) = Parquet df
              \<and> date_values df = partition_dates (daily (snd (build_full_file s))))"
    by (simp add: build_full_file_unfold date_values_of_daily_ok)
  from a b c rollup_up_to_date_iff [of s] show ?thesis by blast
qed

lemma ex_partition_dates: "date_values ex_partition = {Some (DayC 5)}"
  by (simp add: ex_partition_rows date_values_def ex_price_a_def ex_price_b_def)

lemma ex_rollup_up_to_date: "rollup_up_to_date ex_disk_rollup"
  by (simp add: rollup_up_to_date_def ex_disk_rollup_def ex_disk_def ex_partition_dates
      partition_dates_def)

lemma ex_build_full_file:
  "rollup_up_to_date ex_disk_rollup
   \<and> build_full_file ex_disk_rollup = (Returned (), ex_disk_rollup)
   \<and> \<not> rollup_up_to_date ex_disk \<and> daily ex_disk \<noteq> [] \<and> daily_ok (daily ex_disk)
   \<and> full_file (snd (build_full_file ex_disk)) = Parquet ex_partition
   \<and> date_values ex_partition = partition_dates (daily (snd (build_full_file ex_disk)))"
proof -
  have ne: "daily ex_disk \<noteq> []" by (simp add: ex_disk_def)
  note t1 = build_full_file_with_partitions [of ex_disk_rollup]
  note t2 = build_full_file_with_partitions [of ex_disk]
  from t1 ex_rollup_up_to_date have 1: "build_full_file ex_disk_rollup = (Returned (), ex_disk_rollup)"
    by blast
  from t2 ex_not_up_to_date ne have
    2: "build_full_file ex_disk = (Returned (), ex_disk\<lparr> full_file := Parquet (concat (map snd (daily ex_disk))) \<rparr>)"
    by blast
  then have 3: "full_file (snd (build_full_file ex_disk)) = Parquet ex_partition"
    by (simp add: ex_disk_def)
  from t2 ex_not_up_to_date ne ex_daily_ok obtain df where
    "full_file (snd (build_full_file ex_disk)) = Parquet df"
    "date_values df = partition_dates (daily (snd (build_full_file ex_disk)))"
    by blast
  with 3 have 4: "date_values ex_partition = partition_dates (daily (snd (build_full_file ex_disk)))"
    by simp
  from 1 3 4 ex_rollup_up_to_date ex_not_up_to_date ne ex_daily_ok show ?thesis by blast
qed

lemma date_values_empty: "date_values df = {} \<longleftrightarrow> df = []"
  by (simp add: date_values_def)

lemma ex_partition6_dates: "date_values ex_partition6 = {Some (DayC 6)}"
  by (simp add: ex_partition6_rows date_values_def ex_price_c_def)

text \<open>
  Claim C6. The full rebuild is to leave the rollup when its dates are those of the
  partition directories, and otherwise to overwrite it so that they are. With an
  enriched partition on disk \<^verbatim>\<open>build_full_file\<close> does so. With none, and a rollup that
  is missing or that holds at least one row, \<^verbatim>\<open>pd.concat\<close> is called on the empty
  list and raises \<^verbatim>\<open>ValueError\<close>: nothing is written, the missing rollup stays
  missing and the stale one keeps dates that no partition directory has. The fallback
  of \<^verbatim>\<open>append_to_full_file\<close> for a missing rollup ends the same way. The other calls of
  \<^verbatim>\<open>pd.concat\<close> on a collected list (\<^verbatim>\<open>harvest_prices_for_day\<close>, \<^verbatim>\<open>build_prices\<close>,
  \<^verbatim>\<open>append_to_full_file\<close>) are guarded against the empty list.
\<close>

theorem full_rebuild_without_partitions:
  "daily s = [] \<longrightarrow>
     (\<not> rollup_up_to_date s \<longleftrightarrow>
        full_file s = NoFile \<or> (\<exists>old_df. full_file s = Parquet old_df \<and> old_df \<noteq> []))
     \<and> (\<not> rollup_up_to_date s \<longrightarrow>
          build_full_file s = (Raised ValueError, s)
          \<and> (\<forall>old_df. full_file s = Parquet old_df \<longrightarrow>
                date_values old_df \<noteq> partition_dates (daily s)))
     \<and> (full_file s = NoFile \<longrightarrow> append_to_full_file s new_days = (Raised ValueError, s))"
proof
  assume empty: "daily s = []"
  have pd: "partition_dates (daily s) = {}" by (simp add: empty partition_dates_def)
  have a: "\<not> rollup_up_to_date s \<longleftrightarrow>
        full_file s = NoFile \<or> (\<exists>old_df. full_file s = Parquet old_df \<and> old_df \<noteq> [])"
    by (cases "full_file s") (simp_all add: rollup_up_to_date_def pd date_values_empty)
  have b: "build_full_file s = (Raised ValueError, s)
          \<and> (\<forall>old_df. full_file s = Parquet old_df \<longrightarrow>
                date_values old_df \<noteq> partition_dates (daily s))"
    if stale: "\<not> rollup_up_to_date s"
  proof -
    from stale empty have "build_full_file s = (Raised ValueError, s)"
      by (rule build_full_file_no_partitions)
    moreover from stale have "\<forall>old_df. full_file s = Parquet old_df \<longrightarrow>
        date_values old_df \<noteq> partition_dates (daily s)"
      by (auto simp: rollup_up_to_date_def)
    ultimately show ?thesis by blast
  qed
  have c: "append_to_full_file s new_days = (Raised ValueError, s)" if none: "full_file s = NoFile"
    using build_full_file_no_partitions [OF rollup_up_to_date_NoFile [OF none] empty]
    by (simp add: append_to_full_file_NoFile [OF none])
  from a b c show "(\<not> rollup_up_to_date s \<longleftrightarrow>
        full_file s = NoFile \<or> (\<exists>old_df. full_file s = Parquet old_df \<and> old_df \<noteq> []))
     \<and> (\<not> rollup_up_to_date s \<longrightarrow>
          build_full_file s = (Raised ValueError, s)
          \<and> (\<forall>old_df. full_file s = Parquet old_df \<longrightarrow>
                date_values old_df \<noteq> partition_dates (daily s)))
     \<and> (full_file s = NoFile \<longrightarrow> append_to_full_file s new_days = (Raised ValueError, s))"
    by blast
qed

theorem full_rebuild_without_partitions_witness:
  "daily ex_disk0 = [] \<and> full_file ex_disk0 = NoFile \<and> \<not> rollup_up_to_date ex_disk0
   \<and> build_full_file ex_disk0 = (Raised ValueError, ex_disk0)
   \<and> append_to_full_file ex_disk0 [5] = (Raised ValueError, ex_disk0)
   \<and> daily ex_disk_stale = [] \<and> full_file ex_disk_stale = Parquet ex_partition6
   \<and> date_values ex_partition6 = {Some (DayC 6)}
   \<and> partition_dates (daily ex_disk_stale) = {}
   \<and> \<not> rollup_up_to_date ex_disk_stale
   \<and> build_full_file ex_disk_stale = (Raised ValueError, ex_disk_stale)"
proof -
  have e0: "daily ex_disk0 = []" and f0: "full_file ex_disk0 = NoFile"
    by (simp_all add: ex_disk0_def)
  have e1: "daily ex_disk_stale = []" and f1: "full_file ex_disk_stale = Parquet ex_partition6"
    by (simp_all add: ex_disk_stale_def ex_disk0_def)
  have ne: "ex_partition6 \<noteq> []" by (simp add: ex_partition6_rows)
  have pd: "partition_dates (daily ex_disk_stale) = {}" by (simp add: e1 partition_dates_def)
  note t0 = full_rebuild_without_partitions [of ex_disk0 "[5]"]
  note t1 = full_rebuild_without_partitions [of ex_disk_stale "[5]"]
  from t0 e0 f0 have 0: "\<not> rollup_up_to_date ex_disk0
      \<and> build_full_file ex_disk0 = (Raised ValueError, ex_disk0)
      \<and> append_to_full_file ex_disk0 [5] = (Raised ValueError, ex_disk0)"
    by blast
  from t1 e1 f1 ne have 1: "\<not> rollup_up_to_date ex_disk_stale
      \<and> build_full_file ex_disk_stale = (Raised ValueError, ex_disk_stale)"
    by blast
  from 0 1 e0 f0 e1 f1 pd ex_partition6_dates show ?thesis by simp
qed

lemma date_values_keys: "date_values df = (\<lambda>k. fst (snd k)) ` (dedup_key ` set df)"
  by (simp add: date_values_def image_comp comp_def dedup_key_def)

lemma date_values_drop_duplicates: "date_values (drop_duplicates dedup_key df) = date_values df"
  by (simp add: date_values_keys keys_drop_duplicates)

lemma date_values_append: "date_values (xs @ ys) = date_values xs \<union> date_values ys"
  by (simp add: date_values_def)

lemma drop_duplicates_append_distinct:
  assumes "distinct (map key xs)"
  shows "drop_duplicates key (xs @ ys) =
     xs @ drop_duplicates key (filter (\<lambda>y. key y \<notin> key ` set xs) ys)"
  by (simp add: drop_duplicates_append drop_duplicates_distinct [OF assms])

lemma append_to_full_file_result:
  assumes "full_file s = Parquet old_df" and "distinct (map dedup_key old_df)"
  shows "append_to_full_file s new_days =
     (Returned (), s\<lparr> full_file := Parquet (drop_duplicates dedup_key
        (old_df @ concat (List.map_filter (\<lambda>d. map_of (daily s) d) new_days))) \<rparr>)"
proof (cases "List.map_filter (\<lambda>d. map_of (daily s) d) new_days = []")
  case True
  have "s\<lparr> full_file := Parquet old_df \<rparr> = s" using assms(1) by simp
  with True assms show ?thesis
    by (simp add: append_to_full_file_def drop_duplicates_distinct)
next
  case False
  with assms(1) show ?thesis by (rule append_to_full_file_Parquet)
qed

text \<open>
  Claim C7. Without a rollup file the incremental append is the full rebuild. With a
  rollup whose rows have distinct keys (the dedup invariant), it leaves the rollup equal
  to the prior rollup concatenated with the enriched partitions of those new dates that
  are on disk, deduplicated on the key with the first occurrence kept: the prior rows,
  followed by the new rows whose key the prior rollup did not hold, so the row count is
  the prior count plus the number of newly added unique rows, and the dates are the old
  and the new ones. Nothing but the rollup file changes.
\<close>

theorem incremental_append:
  "(full_file s = NoFile \<longrightarrow> append_to_full_file s new_days = build_full_file s)
   \<and> (full_file s = Parquet old_df \<and> distinct (map dedup_key old_df) \<longrightarrow>
        append_to_full_file s new_days =
          (Returned (), s\<lparr> full_file := Parquet (drop_duplicates dedup_key
             (old_df @ concat (List.map_filter (\<lambda>d. map_of (daily s) d) new_days))) \<rparr>)
        \<and> drop_duplicates dedup_key
             (old_df @ concat (List.map_filter (\<lambda>d. map_of (daily s) d) new_days))
           = old_df @ drop_duplicates dedup_key
               (filter (\<lambda>m. dedup_key m \<notin> dedup_key ` set old_df)
                  (concat (List.map_filter (\<lambda>d. map_of (daily s) d) new_days)))
        \<and> length (drop_duplicates dedup_key
             (old_df @ concat (List.map_filter (\<lambda>d. map_of (daily s) d) new_days)))
           = length old_df + length (drop_duplicates dedup_key
               (filter (\<lambda>m. dedup_key m \<notin> dedup_key ` set old_df)
                  (concat (List.map_filter (\<lambda>d. map_of (daily s) d) new_days))))
        \<and> date_values (drop_duplicates dedup_key
             (old_df @ concat (List.map_filter (\<lambda>d. map_of (daily s) d) new_days)))
           = date_values old_df
             \<union> date_values (concat (List.map_filter (\<lambda>d. map_of (daily s) d) new_days)))"
proof -
  let ?new = "concat (List.map_filter (\<lambda>d. map_of (daily s) d) new_days)"
  have a: "full_file s = NoFile \<longrightarrow> append_to_full_file s new_days = build_full_file s"
    by (simp add: append_to_full_file_NoFile)
  have b: "append_to_full_file s new_days =
          (Returned (), s\<lparr> full_file := Parquet (drop_duplicates dedup_key (old_df @ ?new)) \<rparr>)"
    if "full_file s = Parquet old_df" "distinct (map dedup_key old_df)"
    using that by (rule append_to_full_file_result)
  have c: "drop_duplicates dedup_key (old_df @ ?new)
      = old_df @ drop_duplicates dedup_key (filter (\<lambda>m. dedup_key m \<notin> dedup_key ` set old_df) ?new)"
    if "distinct (map dedup_key old_df)"
    using that by (rule drop_duplicates_append_distinct)
  have d: "length (drop_duplicates dedup_key (old_df @ ?new))
      = length old_df + length (drop_duplicates dedup_key
          (filter (\<lambda>m. dedup_key m \<notin> dedup_key ` set old_df) ?new))"
    if "distinct (map dedup_key old_df)"
    using c [OF that] by simp
  have e: "date_values (drop_duplicates dedup_key (old_df @ ?new))
      = date_values old_df \<union> date_values ?new"
    by (simp add: date_values_drop_duplicates date_values_append)
  from a b c d e show ?thesis by blast
qed

lemma ex_two_new: "List.map_filter (\<lambda>d. map_of (daily ex_disk_two) d) [6] = [ex_partition6]"
  by (simp add: ex_disk_two_def ex_disk_def List.map_filter_def)

lemma ex_partition_distinct: "distinct (map dedup_key ex_partition)"
  by (simp add: ex_partition_def distinct_merged_rows)

lemma ex_added:
  "drop_duplicates dedup_key (filter (\<lambda>m. dedup_key m \<notin> dedup_key ` set ex_partition) ex_partition6)
     = ex_partition6"
  by (simp add: ex_partition_rows ex_partition6_rows dedup_key_fact ex_keys)

theorem incremental_append_witness:
  "full_file ex_disk_two = Parquet ex_partition \<and> distinct (map dedup_key ex_partition)
   \<and> append_to_full_file ex_disk_two [6]
       = (Returned (), ex_disk_two\<lparr> full_file := Parquet (ex_partition @ ex_partition6) \<rparr>)
   \<and> length (ex_partition @ ex_partition6) = length ex_partition + 1
   \<and> full_file ex_disk = NoFile
   \<and> append_to_full_file ex_disk [6] = build_full_file ex_disk"
proof -
  have old: "full_file ex_disk_two = Parquet ex_partition"
    by (simp add: ex_disk_two_def)
  have nofile: "full_file ex_disk = NoFile" by (simp add: ex_disk_def)
  note t = incremental_append [of ex_disk_two "[6]" ex_partition]
  from t old ex_partition_distinct have
    1: "append_to_full_file ex_disk_two [6] =
          (Returned (), ex_disk_two\<lparr> full_file := Parquet (drop_duplicates dedup_key
             (ex_partition @ concat (List.map_filter (\<lambda>d. map_of (daily ex_disk_two) d) [6]))) \<rparr>)"
    and 2: "drop_duplicates dedup_key
             (ex_partition @ concat (List.map_filter (\<lambda>d. map_of (daily ex_disk_two) d) [6]))
           = ex_partition @ drop_duplicates dedup_key
               (filter (\<lambda>m. dedup_key m \<notin> dedup_key ` set ex_partition)
                  (concat (List.map_filter (\<lambda>d. map_of (daily ex_disk_two) d) [6])))"
    by blast+
  from 2 have 3: "drop_duplicates dedup_key
             (ex_partition @ concat (List.map_filter (\<lambda>d. map_of (daily ex_disk_two) d) [6]))
           = ex_partition @ ex_partition6"
    unfolding ex_two_new by (simp add: ex_added)
  from 1 have 4: "append_to_full_file ex_disk_two [6]
       = (Returned (), ex_disk_two\<lparr> full_file := Parquet (ex_partition @ ex_partition6) \<rparr>)"
    by (simp only: 3)
  have 5: "length (ex_partition @ ex_partition6) = length ex_partition + 1"
    by (simp add: ex_partition6_rows)
  from incremental_append [of ex_disk "[6]" "[]"] nofile
  have 6: "append_to_full_file ex_disk [6] = build_full_file ex_disk" by blast
  from old ex_partition_distinct 4 5 nofile 6 show ?thesis by blast
qed

text \<open>A rollup file that cannot be read stops the incremental append: it reads the file
  outside any \<^verbatim>\<open>try\<close>.\<close>

lemma append_to_full_file_Unreadable:
  "full_file s = Unreadable \<Longrightarrow> append_to_full_file s new_days = (Raised ReadFailed, s)"
  by (simp add: append_to_full_file_def)

section \<open>The harvesting loop\<close>

declare build_prices_loop.simps [simp del]

lemma build_prices_loop_unfold:
  "build_prices_loop e processed step end_d d (all_frames, new_days, s) =
     (if d \<le> end_d \<and> 0 < step then
        (case (if d \<in> set processed then None else day_frame e d) of
           None \<Rightarrow> build_prices_loop e processed step end_d (d + step) (all_frames, new_days, s)
         | Some df \<Rightarrow>
            if \<not> raw_write_ok e d then (Some WriteFailed, all_frames, new_days, s)
            else build_prices_loop e processed step end_d (d + step)
                   (all_frames @ [df], new_days @ [d],
                    s\<lparr> daily_prices := AList.update d df (daily_prices s),
                       processed_days := processed_days s @ [d] \<rparr>))
      else (None, all_frames, new_days, s))"
  by (subst build_prices_loop.simps)
     (simp add: day_frame_def Let_def split: option.splits)

lemma build_prices_loop_stop:
  "\<not> (d \<le> end_d \<and> 0 < step) \<Longrightarrow>
   build_prices_loop e processed step end_d d acc = (None, acc)"
proof -
  assume stop: "\<not> (d \<le> end_d \<and> 0 < step)"
  obtain fs ns s where acc: "acc = (fs, ns, s)" by (cases acc)
  show ?thesis unfolding acc
    by (subst build_prices_loop_unfold) (use stop in auto)
qed

text \<open>What the loop has done when it ends, normally or by an exception.\<close>

lemma build_prices_loop_effect:
  assumes "build_prices_loop e processed step end_d d (all_frames, new_days, s)
             = (err, all_frames', new_days', s')"
  shows "\<exists>marked. new_days' = new_days @ marked
     \<and> processed_days s' = processed_days s @ marked
     \<and> all_frames' = all_frames @ map (\<lambda>x. the (day_frame e x)) marked
     \<and> (\<forall>x \<in> set marked. d \<le> x \<and> x \<le> end_d \<and> x \<notin> set processed \<and> raw_write_ok e x
            \<and> day_frame e x \<noteq> None \<and> map_of (daily_prices s') x = day_frame e x)
     \<and> (\<forall>x. x \<notin> set marked \<longrightarrow> map_of (daily_prices s') x = map_of (daily_prices s) x)
     \<and> daily s' = daily s \<and> full_file s' = full_file s \<and> groups_file s' = groups_file s
     \<and> products_file s' = products_file s \<and> processed_products s' = processed_products s"
  using assms
proof (induction "nat (end_d + 1 - d)" arbitrary: d all_frames new_days s rule: less_induct)
  case less
  show ?case
  proof (cases "d \<le> end_d \<and> 0 < step")
    case False
    with less.prems show ?thesis
      by (simp add: build_prices_loop_stop)
  next
    case True
    then have smaller: "nat (end_d + 1 - (d + step)) < nat (end_d + 1 - d)" by simp
    show ?thesis
    proof (cases "if d \<in> set processed then None else day_frame e d")
      case None
      with True less.prems have
        "build_prices_loop e processed step end_d (d + step) (all_frames, new_days, s)
           = (err, all_frames', new_days', s')"
        by (simp add: build_prices_loop_unfold [of e processed step end_d d])
      from less.hyps [OF smaller this] obtain marked where m:
        "new_days' = new_days @ marked"
        "processed_days s' = processed_days s @ marked"
        "all_frames' = all_frames @ map (\<lambda>x. the (day_frame e x)) marked"
        "\<forall>x \<in> set marked. d + step \<le> x \<and> x \<le> end_d \<and> x \<notin> set processed \<and> raw_write_ok e x
            \<and> day_frame e x \<noteq> None \<and> map_of (daily_prices s') x = day_frame e x"
        "\<forall>x. x \<notin> set marked \<longrightarrow> map_of (daily_prices s') x = map_of (daily_prices s) x"
        "daily s' = daily s \<and> full_file s' = full_file s \<and> groups_file s' = groups_file s
          \<and> products_file s' = products_file s \<and> processed_products s' = processed_products s"
        by blast
      have "\<forall>x \<in> set marked. d \<le> x \<and> x \<le> end_d \<and> x \<notin> set processed \<and> raw_write_ok e x
            \<and> day_frame e x \<noteq> None \<and> map_of (daily_prices s') x = day_frame e x"
      proof
        fix x assume "x \<in> set marked"
        with m(4) have *: "d + step \<le> x \<and> x \<le> end_d \<and> x \<notin> set processed \<and> raw_write_ok e x
            \<and> day_frame e x \<noteq> None \<and> map_of (daily_prices s') x = day_frame e x" by blast
        with True have "d \<le> x" by simp
        with * show "d \<le> x \<and> x \<le> end_d \<and> x \<notin> set processed \<and> raw_write_ok e x
            \<and> day_frame e x \<noteq> None \<and> map_of (daily_prices s') x = day_frame e x" by blast
      qed
      with m(1,2,3,5,6) show ?thesis by blast
    next
      case (Some df)
      then have df: "d \<notin> set processed" "day_frame e d = Some df"
        by (auto split: if_splits)
      show ?thesis
      proof (cases "raw_write_ok e d")
        case False
        with True Some less.prems have "new_days' = new_days" "s' = s" "all_frames' = all_frames"
          by (simp_all add: build_prices_loop_unfold [of e processed step end_d d])
        then show ?thesis by simp
      next
        case ok: True
        let ?s1 = "s\<lparr> daily_prices := AList.update d df (daily_prices s),
                       processed_days := processed_days s @ [d] \<rparr>"
        from True Some ok less.prems have
          "build_prices_loop e processed step end_d (d + step)
             (all_frames @ [df], new_days @ [d], ?s1) = (err, all_frames', new_days', s')"
          by (simp add: build_prices_loop_unfold [of e processed step end_d d])
        from less.hyps [OF smaller this] obtain marked where m:
          "new_days' = (new_days @ [d]) @ marked"
          "processed_days s' = processed_days ?s1 @ marked"
          "all_frames' = (all_frames @ [df]) @ map (\<lambda>x. the (day_frame e x)) marked"
          "\<forall>x \<in> set marked. d + step \<le> x \<and> x \<le> end_d \<and> x \<notin> set processed \<and> raw_write_ok e x
              \<and> day_frame e x \<noteq> None \<and> map_of (daily_prices s') x = day_frame e x"
          "\<forall>x. x \<notin> set marked \<longrightarrow> map_of (daily_prices s') x = map_of (daily_prices ?s1) x"
          "daily s' = daily ?s1 \<and> full_file s' = full_file ?s1 \<and> groups_file s' = groups_file ?s1
            \<and> products_file s' = products_file ?s1 \<and> processed_products s' = processed_products ?s1"
          by blast
        have later: "d < x" if "x \<in> set marked" for x
        proof -
          from m(4) that have "d + step \<le> x" by blast
          with True show ?thesis by simp
        qed
        then have dnot: "d \<notin> set marked" by blast
        have 1: "new_days' = new_days @ (d # marked)" using m(1) by simp
        have 2: "processed_days s' = processed_days s @ (d # marked)" using m(2) by simp
        have 3: "all_frames' = all_frames @ map (\<lambda>x. the (day_frame e x)) (d # marked)"
          using m(3) df by simp
        have dd: "map_of (daily_prices s') d = day_frame e d"
          using m(5) dnot df by (simp add: update_conv')
        have 4: "\<forall>x \<in> set (d # marked). d \<le> x \<and> x \<le> end_d \<and> x \<notin> set processed \<and> raw_write_ok e x
              \<and> day_frame e x \<noteq> None \<and> map_of (daily_prices s') x = day_frame e x"
        proof
          fix x assume x: "x \<in> set (d # marked)"
          show "d \<le> x \<and> x \<le> end_d \<and> x \<notin> set processed \<and> raw_write_ok e x
              \<and> day_frame e x \<noteq> None \<and> map_of (daily_prices s') x = day_frame e x"
          proof (cases "x = d")
            case True
            with \<open>d \<le> end_d \<and> 0 < step\<close> df ok dd show ?thesis by simp
          next
            case False
            with x have xm: "x \<in> set marked" by simp
            with m(4) have "x \<le> end_d \<and> x \<notin> set processed \<and> raw_write_ok e x
              \<and> day_frame e x \<noteq> None \<and> map_of (daily_prices s') x = day_frame e x" by blast
            moreover from later [OF xm] have "d \<le> x" by simp
            ultimately show ?thesis by blast
          qed
        qed
        have 5: "\<forall>x. x \<notin> set (d # marked) \<longrightarrow> map_of (daily_prices s') x = map_of (daily_prices s) x"
          using m(5) by (simp add: update_conv')
        have 6: "daily s' = daily s \<and> full_file s' = full_file s \<and> groups_file s' = groups_file s
            \<and> products_file s' = products_file s \<and> processed_products s' = processed_products s"
          using m(6) by simp
        from 1 2 3 4 5 6 show ?thesis by blast
      qed
    qed
  qed
qed

lemma build_prices_loop_raises:
  "build_prices_loop e processed step end_d d (all_frames, new_days, s)
     = (Some er, all_frames', new_days', s') \<Longrightarrow> er = WriteFailed"
proof (induction "nat (end_d + 1 - d)" arbitrary: d all_frames new_days s rule: less_induct)
  case less
  show ?case
  proof (cases "d \<le> end_d \<and> 0 < step")
    case False
    with less.prems show ?thesis by (simp add: build_prices_loop_stop)
  next
    case True
    then have smaller: "nat (end_d + 1 - (d + step)) < nat (end_d + 1 - d)" by simp
    show ?thesis
    proof (cases "if d \<in> set processed then None else day_frame e d")
      case None
      with True less.prems have
        "build_prices_loop e processed step end_d (d + step) (all_frames, new_days, s)
           = (Some er, all_frames', new_days', s')"
        by (simp add: build_prices_loop_unfold [of e processed step end_d d])
      from less.hyps [OF smaller this] show ?thesis .
    next
      case (Some df)
      show ?thesis
      proof (cases "raw_write_ok e d")
        case False
        with True Some less.prems show ?thesis
          by (simp add: build_prices_loop_unfold [of e processed step end_d d])
      next
        case ok: True
        with True Some less.prems have
          "build_prices_loop e processed step end_d (d + step)
             (all_frames @ [df], new_days @ [d],
              s\<lparr> daily_prices := AList.update d df (daily_prices s),
                 processed_days := processed_days s @ [d] \<rparr>)
           = (Some er, all_frames', new_days', s')"
          by (simp add: build_prices_loop_unfold [of e processed step end_d d])
        from less.hyps [OF smaller this] show ?thesis .
      qed
    qed
  qed
qed

section \<open>Marking days as processed\<close>

lemma price_frame_dated: "r \<in> set (price_frame d g results) \<Longrightarrow> r ''date'' = Some (DayC d)"
  by (auto simp: price_frame_def)

lemma price_frame_not_empty:
  "results \<noteq> [] \<Longrightarrow> \<not> df_empty (price_frame d g results) \<and> \<not> all_na (price_frame d g results)"
proof -
  assume "results \<noteq> []"
  then obtain obj rest where "results = obj # rest" by (cases results) auto
  then have "(snake_row obj)(''date'' \<mapsto> DayC d, ''groupid'' \<mapsto> StrC g) \<in> set (price_frame d g results)"
    by (simp add: price_frame_def)
  moreover have "(snake_row obj)(''date'' \<mapsto> DayC d, ''groupid'' \<mapsto> StrC g) \<noteq> Map.empty"
    by simp
  ultimately show ?thesis unfolding df_empty_def all_na_def by blast
qed

lemma group_frames_dated:
  "df \<in> set (group_frames d gs) \<Longrightarrow> r \<in> set df \<Longrightarrow> r ''date'' = Some (DayC d)"
  by (induction d gs rule: group_frames.induct) (auto simp: price_frame_dated split: if_splits)

lemma harvest_dated:
  "r \<in> set (harvest_prices_for_day dr) \<Longrightarrow> r ''date'' = Some (DayC (root_day dr))"
  by (auto simp: harvest_prices_for_day_def Let_def group_frames_dated split: option.splits)

lemma df_empty_Nil: "df_empty []"
  by (simp add: df_empty_def)

lemma prune_row_date: "prune_row r ''date'' = r ''date''"
  by (simp add: prune_row_def PRUNE_COLS_def)

lemma day_frame_Some_iff:
  "day_frame e d = Some df \<longleftrightarrow>
     (\<exists>a dr. download_archive e d = Some a \<and> extract_archive a = Some dr
        \<and> \<not> df_empty (harvest_prices_for_day dr)
        \<and> df = drop_prune_cols (harvest_prices_for_day dr))"
  by (auto simp: day_frame_def Let_def split: option.splits)

lemma day_frame_None_iff:
  "day_frame e d = None \<longleftrightarrow>
     download_archive e d = None
     \<or> (\<exists>a. download_archive e d = Some a \<and>
           (extract_archive a = None
            \<or> (\<exists>dr. extract_archive a = Some dr \<and> df_empty (harvest_prices_for_day dr))))"
  by (auto simp: day_frame_def Let_def split: option.splits)

lemma extracted_root_day:
  "download_archive e d = Some a \<Longrightarrow> extract_archive a = Some dr \<Longrightarrow> root_day dr = d"
  by (auto simp: download_archive_def extract_archive_def split: option.splits)

lemma day_frame_raw_partition_ok:
  assumes "day_frame e d = Some df"
  shows "raw_partition_ok d df"
proof -
  from assms obtain a dr where h: "download_archive e d = Some a" "extract_archive a = Some dr"
    "\<not> df_empty (harvest_prices_for_day dr)" "df = drop_prune_cols (harvest_prices_for_day dr)"
    by (auto simp: day_frame_Some_iff)
  from h(3) have "harvest_prices_for_day dr \<noteq> []" using df_empty_Nil by auto
  then have "df \<noteq> []" by (simp add: h(4) drop_prune_cols_def)
  moreover have "\<forall>r \<in> set df. r ''date'' = Some (DayC d)"
    using harvest_dated [of _ dr] extracted_root_day [OF h(1,2)]
    by (auto simp: h(4) drop_prune_cols_def prune_row_date)
  ultimately show ?thesis by (simp add: raw_partition_ok_def)
qed

text \<open>
  Claim C2. Whatever way the harvesting loop ends (normally, or by the exception of a
  failing partition write), the dates it has appended to \<^verbatim>\<open>processed_days.txt\<close> are dates
  whose archive was downloaded and extracted, whose harvested frame was not empty and
  whose raw partition was written and is on disk with that frame, columns pruned. A date
  whose archive is missing, whose extraction fails, whose frame is empty or whose write
  fails is not among them.
\<close>

theorem marked_only_after_write:
  assumes "build_prices e s start_d end_d step = Some (r, s')"
  shows "\<exists>marked. processed_days s' = processed_days s @ marked
     \<and> (\<forall>x \<in> set marked. x \<notin> set (processed_days s) \<and> raw_write_ok e x
          \<and> (\<exists>a dr. download_archive e x = Some a \<and> extract_archive a = Some dr
                \<and> \<not> df_empty (harvest_prices_for_day dr)
                \<and> map_of (daily_prices s') x = Some (drop_prune_cols (harvest_prices_for_day dr))))
     \<and> (\<forall>x. (download_archive e x = None
               \<or> (\<exists>a. download_archive e x = Some a \<and>
                     (extract_archive a = None
                      \<or> (\<exists>dr. extract_archive a = Some dr \<and> df_empty (harvest_prices_for_day dr))))
               \<or> \<not> raw_write_ok e x)
            \<longrightarrow> x \<notin> set marked)"
proof -
  obtain err fs ns where loop:
    "build_prices_loop e (processed_days s) step end_d start_d ([], [], s) = (err, fs, ns, s')"
    using assms by (auto simp: build_prices_def split: if_splits prod.splits option.splits)
  from build_prices_loop_effect [OF loop] obtain marked where m:
    "processed_days s' = processed_days s @ marked"
    "\<forall>x \<in> set marked. start_d \<le> x \<and> x \<le> end_d \<and> x \<notin> set (processed_days s) \<and> raw_write_ok e x
        \<and> day_frame e x \<noteq> None \<and> map_of (daily_prices s') x = day_frame e x"
    by blast
  have written: "\<forall>x \<in> set marked. x \<notin> set (processed_days s) \<and> raw_write_ok e x
          \<and> (\<exists>a dr. download_archive e x = Some a \<and> extract_archive a = Some dr
                \<and> \<not> df_empty (harvest_prices_for_day dr)
                \<and> map_of (daily_prices s') x = Some (drop_prune_cols (harvest_prices_for_day dr)))"
  proof
    fix x assume "x \<in> set marked"
    with m(2) have x: "x \<notin> set (processed_days s)" "raw_write_ok e x" "day_frame e x \<noteq> None"
      "map_of (daily_prices s') x = day_frame e x" by blast+
    from x(3) obtain df where "day_frame e x = Some df" by blast
    with x(4) have "\<exists>a dr. download_archive e x = Some a \<and> extract_archive a = Some dr
                \<and> \<not> df_empty (harvest_prices_for_day dr)
                \<and> map_of (daily_prices s') x = Some (drop_prune_cols (harvest_prices_for_day dr))"
      by (auto simp: day_frame_Some_iff)
    with x(1,2) show "x \<notin> set (processed_days s) \<and> raw_write_ok e x
          \<and> (\<exists>a dr. download_archive e x = Some a \<and> extract_archive a = Some dr
                \<and> \<not> df_empty (harvest_prices_for_day dr)
                \<and> map_of (daily_prices s') x = Some (drop_prune_cols (harvest_prices_for_day dr)))"
      by blast
  qed
  have unmarked: "\<forall>x. (download_archive e x = None
               \<or> (\<exists>a. download_archive e x = Some a \<and>
                     (extract_archive a = None
                      \<or> (\<exists>dr. extract_archive a = Some dr \<and> df_empty (harvest_prices_for_day dr))))
               \<or> \<not> raw_write_ok e x)
            \<longrightarrow> x \<notin> set marked"
  proof (intro allI impI)
    fix x
    assume "download_archive e x = None
               \<or> (\<exists>a. download_archive e x = Some a \<and>
                     (extract_archive a = None
                      \<or> (\<exists>dr. extract_archive a = Some dr \<and> df_empty (harvest_prices_for_day dr))))
               \<or> \<not> raw_write_ok e x"
    then have "day_frame e x = None \<or> \<not> raw_write_ok e x"
      unfolding day_frame_None_iff by blast
    with m(2) show "x \<notin> set marked" by blast
  qed
  from m(1) written unmarked show ?thesis by blast
qed

lemma ex_download_4: "download_archive ex_env 4 = None"
  by (simp add: download_archive_def ex_env_def)

lemma ex_day_frame_4: "day_frame ex_env 4 = None"
  by (simp add: day_frame_def ex_download_4)

lemma ex_day_frame_5: "day_frame ex_env 5 = Some ex_raw5"
proof -
  let ?results = "[[(''productId'', Some (IntC 42)), (''subTypeName'', Some (StrC ''Normal'')),
       (''marketPrice'', Some (OtherC 7))]]"
  have ne: "\<not> df_empty (price_frame 5 ''604'' ?results) \<and> \<not> all_na (price_frame 5 ''604'' ?results)"
    by (rule price_frame_not_empty) simp
  have h: "harvest_prices_for_day \<lparr> root_day = 5, root_category = Some [(''604'', Some ?results)] \<rparr>
      = price_frame 5 ''604'' ?results"
    using ne by (simp add: harvest_prices_for_day_def)
  show ?thesis
    using ne by (simp add: day_frame_def download_archive_def extract_archive_def ex_env_def h ex_raw5_def)
qed

lemma ex_build_prices:
  "build_prices ex_env ex_disk0 4 5 1 = Some (Returned (ex_raw5, [5]), ex_disk1)"
proof -
  have p: "processed_days ex_disk0 = []" by (simp add: ex_disk0_def)
  have w: "raw_write_ok ex_env 5" by (simp add: ex_env_def)
  have "build_prices_loop ex_env [] 1 5 4 ([], [], ex_disk0)
      = build_prices_loop ex_env [] 1 5 5 ([], [], ex_disk0)"
    by (subst build_prices_loop_unfold) (simp add: ex_day_frame_4)
  also have "\<dots> = build_prices_loop ex_env [] 1 5 6 ([ex_raw5], [5], ex_disk1)"
    by (subst build_prices_loop_unfold) (simp add: ex_day_frame_5 w ex_disk1_def ex_disk0_def)
  also have "\<dots> = (None, [ex_raw5], [5], ex_disk1)"
    by (rule build_prices_loop_stop) simp
  finally show ?thesis by (simp add: build_prices_def p)
qed

theorem marked_only_after_write_witness:
  "build_prices ex_env ex_disk0 4 5 1 = Some (Returned (ex_raw5, [5]), ex_disk1)
   \<and> download_archive ex_env 4 = None
   \<and> 4 \<notin> set (processed_days ex_disk1)
   \<and> processed_days ex_disk1 = [5]
   \<and> map_of (daily_prices ex_disk1) 5 = Some ex_raw5"
proof -
  from marked_only_after_write [OF ex_build_prices] obtain marked where
    m: "processed_days ex_disk1 = processed_days ex_disk0 @ marked"
    and u: "\<forall>x. (download_archive ex_env x = None
               \<or> (\<exists>a. download_archive ex_env x = Some a \<and>
                     (extract_archive a = None
                      \<or> (\<exists>dr. extract_archive a = Some dr \<and> df_empty (harvest_prices_for_day dr))))
               \<or> \<not> raw_write_ok ex_env x)
            \<longrightarrow> x \<notin> set marked"
    by blast
  from u ex_download_4 have "4 \<notin> set marked" by blast
  with m have "4 \<notin> set (processed_days ex_disk1)" by (simp add: ex_disk0_def)
  moreover have "processed_days ex_disk1 = [5]" "map_of (daily_prices ex_disk1) 5 = Some ex_raw5"
    by (simp_all add: ex_disk1_def)
  ultimately show ?thesis using ex_build_prices ex_download_4 by blast
qed

section \<open>The stages of main\<close>

lemma products_loop_fields:
  "products_loop e processed gids (acc, s) = (acc', s') \<Longrightarrow>
     processed_days s' = processed_days s \<and> daily_prices s' = daily_prices s
     \<and> daily s' = daily s \<and> full_file s' = full_file s \<and> groups_file s' = groups_file s"
proof (induction gids arbitrary: acc s)
  case Nil
  then show ?case by simp
next
  case (Cons gid gids)
  let ?s1 = "s\<lparr> processed_products := processed_products s @ [gid] \<rparr>"
  from Cons.prems have
    "products_loop e processed gids (acc, s) = (acc', s')
     \<or> (\<exists>df. products_loop e processed gids (acc @ [df], ?s1) = (acc', s'))"
    by (auto simp: Let_def split: if_splits option.splits)
  then show ?case
  proof
    assume "products_loop e processed gids (acc, s) = (acc', s')"
    then show ?thesis by (rule Cons.IH)
  next
    assume "\<exists>df. products_loop e processed gids (acc @ [df], ?s1) = (acc', s')"
    then obtain df where "products_loop e processed gids (acc @ [df], ?s1) = (acc', s')" by blast
    from Cons.IH [OF this] show ?thesis by simp
  qed
qed

lemma load_groups_fields:
  "load_groups e s = Returned (g, s1) \<Longrightarrow>
     processed_days s1 = processed_days s \<and> daily_prices s1 = daily_prices s
     \<and> daily s1 = daily s \<and> full_file s1 = full_file s"
  by (auto simp: load_groups_def split: option.splits)

lemma build_products_and_groups_fields:
  assumes "build_products_and_groups e s = (r, s')"
  shows "processed_days s' = processed_days s \<and> daily_prices s' = daily_prices s
     \<and> daily s' = daily s \<and> full_file s' = full_file s"
proof (cases "load_groups e s")
  case (Raised err)
  with assms show ?thesis by (simp add: build_products_and_groups_def)
next
  case (Returned gs)
  obtain groups_df s1 where gs: "gs = (groups_df, s1)" by (cases gs)
  note f1 = load_groups_fields [OF Returned [unfolded gs]]
  show ?thesis
  proof (cases "has_column ''group_id'' groups_df")
    case False
    with assms Returned gs f1 show ?thesis by (simp add: build_products_and_groups_def)
  next
    case True
    obtain all_products s2 where loop:
      "products_loop e (processed_products s1) (group_ids groups_df) ([], s1) = (all_products, s2)"
      by (cases "products_loop e (processed_products s1) (group_ids groups_df) ([], s1)")
    note f2 = products_loop_fields [OF loop]
    from assms Returned gs True loop have
      "s' = s2 \<or> (\<exists>df. s' = s2\<lparr> products_file := Some df \<rparr>)"
      by (auto simp: build_products_and_groups_def Let_def split: if_splits option.splits)
    with f1 f2 show ?thesis by auto
  qed
qed

lemma merge_loop_fields:
  "merge_loop products_df groups_df days (tot, s) = (err, tot', s') \<Longrightarrow>
     processed_days s' = processed_days s \<and> daily_prices s' = daily_prices s
     \<and> full_file s' = full_file s"
proof (induction days arbitrary: tot s)
  case Nil
  then show ?case by simp
next
  case (Cons d days)
  show ?case
  proof (cases "map_of (daily_prices s) d")
    case None
    with Cons.prems show ?thesis by simp
  next
    case (Some day_prices)
    show ?thesis
    proof (cases "merge_day day_prices products_df groups_df")
      case (Raised er)
      with Some Cons.prems show ?thesis by simp
    next
      case (Returned merged_df)
      with Some Cons.prems have
        "merge_loop products_df groups_df days
           (tot + length merged_df, s\<lparr> daily := AList.update d merged_df (daily s) \<rparr>)
         = (err, tot', s')"
        by simp
      from Cons.IH [OF this] show ?thesis by simp
    qed
  qed
qed

lemma stage4_fields:
  "stage4 flag s = (r, s') \<Longrightarrow>
     processed_days s' = processed_days s \<and> daily_prices s' = daily_prices s \<and> daily s' = daily s"
  by (auto simp: stage4_def build_full_file_unfold split: if_splits)

lemma stage4_rollup:
  "stage4 flag s = (r, s') \<Longrightarrow>
     full_file s' = full_file s
     \<or> (flag \<and> daily s \<noteq> [] \<and> \<not> rollup_up_to_date s
         \<and> full_file s' = Parquet (concat (map snd (daily s))))"
  by (auto simp: stage4_def build_full_file_unfold split: if_splits)

lemma build_products_and_groups_raises:
  assumes "build_products_and_groups e s = (r, s')" and "r = Raised err"
  shows "err = FetchFailed \<or> (\<exists>c. err = KeyError c)"
proof (cases "load_groups e s")
  case (Raised err')
  then have "err' = FetchFailed"
    by (auto simp: load_groups_def split: option.splits)
  with assms Raised show ?thesis by (simp add: build_products_and_groups_def)
next
  case (Returned gs)
  obtain groups_df s1 where gs: "gs = (groups_df, s1)" by (cases gs)
  with assms Returned show ?thesis
    by (auto simp: build_products_and_groups_def Let_def split: if_splits prod.splits)
qed

text \<open>The ways through stages 2 to 5.\<close>

lemma stages_2_to_5_cases:
  assumes "stages_2_to_5 e a new_days s1 = (r, s')"
  obtains (dimensions) r2 err where "build_products_and_groups e s1 = (r2, s')" "r = Raised err"
      "err = FetchFailed \<or> (\<exists>c. err = KeyError c)"
  | (merge) r2 s2 products_df groups_df err tot where
      "build_products_and_groups e s1 = (r2, s2)"
      "merge_loop products_df groups_df new_days (0, s2) = (Some err, tot, s')" "r = Raised err"
  | (rollup) r2 s2 products_df groups_df tot s3 err where
      "build_products_and_groups e s1 = (r2, s2)"
      "merge_loop products_df groups_df new_days (0, s2) = (None, tot, s3)"
      "stage4 (full_file_flag a) s3 = (Raised err, s')" "r = Raised err"
  | (finished) r2 s2 products_df groups_df tot s3 s4 where
      "build_products_and_groups e s1 = (r2, s2)"
      "merge_loop products_df groups_df new_days (0, s2) = (None, tot, s3)"
      "stage4 (full_file_flag a) s3 = (Returned (), s4)"
      "s' = prune_old_daily_prices 7 s4" "r = Returned 0"
proof -
  obtain r2 s2 where b: "build_products_and_groups e s1 = (r2, s2)"
    by (cases "build_products_and_groups e s1")
  show thesis
  proof (cases r2)
    case (Raised err)
    with assms b have "s' = s2" "r = Raised err" by (simp_all add: stages_2_to_5_def)
    moreover from b Raised have "err = FetchFailed \<or> (\<exists>c. err = KeyError c)"
      by (rule build_products_and_groups_raises)
    ultimately show thesis using b by (auto intro: dimensions)
  next
    case (Returned gp)
    obtain g p where gp: "gp = (g, p)" by (cases gp)
    show thesis
    proof (cases "has_column ''groupid'' p \<and> has_column ''groupid'' g")
      case False
      with assms b Returned gp have "s' = s2" "r = Raised (KeyError ''groupid'')"
        by (auto simp: stages_2_to_5_def split: if_splits)
      with b show thesis by (auto intro: dimensions)
    next
      case True
      let ?P = "drop_prune_cols (astype_str_column ''groupid'' p)"
      let ?G = "drop_prune_cols (astype_str_column ''groupid'' g)"
      obtain err3 tot s3 where m: "merge_loop ?P ?G new_days (0, s2) = (err3, tot, s3)"
        by (cases "merge_loop ?P ?G new_days (0, s2)")
      show thesis
      proof (cases err3)
        case (Some err)
        with assms b Returned gp True m have "s' = s3" "r = Raised err"
          by (simp_all add: stages_2_to_5_def Let_def)
        with b m Some show thesis by (auto intro: merge)
      next
        case None
        obtain r4 s4 where s4: "stage4 (full_file_flag a) s3 = (r4, s4)"
          by (cases "stage4 (full_file_flag a) s3")
        show thesis
        proof (cases r4)
          case (Raised err)
          with assms b Returned gp True m None s4 have "s' = s4" "r = Raised err"
            by (simp_all add: stages_2_to_5_def Let_def)
          with b m None s4 Raised show thesis by (auto intro: rollup)
        next
          case (Returned u)
          with assms b \<open>r2 = Returned gp\<close> gp True m None s4 have
            "s' = prune_old_daily_prices 7 s4" "r = Returned 0"
            by (simp_all add: stages_2_to_5_def Let_def)
          with b m None s4 Returned show thesis by (auto intro: finished)
        qed
      qed
    qed
  qed
qed

text \<open>What stages 2 to 5 leave of the tracking file and of the rollup.\<close>

lemma stages_2_to_5_effect:
  assumes "stages_2_to_5 e a new_days s1 = (r, s')"
  shows "processed_days s' = processed_days s1
     \<and> (full_file s' = full_file s1
         \<or> (full_file_flag a \<and> daily s' \<noteq> []
             \<and> full_file s' = Parquet (concat (map snd (daily s')))))"
  using assms
proof (cases rule: stages_2_to_5_cases)
  case (dimensions r2 err)
  from build_products_and_groups_fields [OF dimensions(1)] show ?thesis by simp
next
  case (merge r2 s2 products_df groups_df err tot)
  from build_products_and_groups_fields [OF merge(1)] merge_loop_fields [OF merge(2)]
  show ?thesis by simp
next
  case (rollup r2 s2 products_df groups_df tot s3 err)
  from build_products_and_groups_fields [OF rollup(1)] merge_loop_fields [OF rollup(2)]
    stage4_fields [OF rollup(3)] stage4_rollup [OF rollup(3)]
  show ?thesis by auto
next
  case (finished r2 s2 products_df groups_df tot s3 s4)
  from build_products_and_groups_fields [OF finished(1)] merge_loop_fields [OF finished(2)]
    stage4_fields [OF finished(3)] stage4_rollup [OF finished(3)]
  show ?thesis by (auto simp: finished(4) prune_other_fields)
qed

section \<open>Runs of the whole pipeline\<close>

text \<open>A second pass over the same dates finds every one of them processed or without
  data.\<close>

lemma build_prices_loop_rerun:
  assumes "build_prices_loop e processed step end_d d (all_frames, new_days, s)
             = (None, all_frames', new_days', s')"
    and "set processed \<union> set new_days' \<subseteq> set processed2"
  shows "build_prices_loop e processed2 step end_d d acc = (None, acc)"
  using assms
proof (induction "nat (end_d + 1 - d)" arbitrary: d all_frames new_days s rule: less_induct)
  case less
  obtain fs ns t where acc: "acc = (fs, ns, t)" by (cases acc)
  show ?case
  proof (cases "d \<le> end_d \<and> 0 < step")
    case False
    then show ?thesis by (rule build_prices_loop_stop)
  next
    case True
    then have smaller: "nat (end_d + 1 - (d + step)) < nat (end_d + 1 - d)" by simp
    show ?thesis
    proof (cases "if d \<in> set processed then None else day_frame e d")
      case None
      with True less.prems(1) have first:
        "build_prices_loop e processed step end_d (d + step) (all_frames, new_days, s)
           = (None, all_frames', new_days', s')"
        by (simp add: build_prices_loop_unfold [of e processed step end_d d])
      have rest: "build_prices_loop e processed2 step end_d (d + step) acc = (None, acc)"
        by (rule less.hyps [OF smaller first less.prems(2)])
      from None less.prems(2) have "(if d \<in> set processed2 then None else day_frame e d) = None"
        by (auto split: if_splits)
      with True rest show ?thesis
        unfolding acc by (subst build_prices_loop_unfold) simp
    next
      case (Some df)
      show ?thesis
      proof (cases "raw_write_ok e d")
        case False
        with True Some less.prems(1) show ?thesis
          by (simp add: build_prices_loop_unfold [of e processed step end_d d])
      next
        case ok: True
        let ?s1 = "s\<lparr> daily_prices := AList.update d df (daily_prices s),
                       processed_days := processed_days s @ [d] \<rparr>"
        from True Some ok less.prems(1) have first:
          "build_prices_loop e processed step end_d (d + step)
             (all_frames @ [df], new_days @ [d], ?s1) = (None, all_frames', new_days', s')"
          by (simp add: build_prices_loop_unfold [of e processed step end_d d])
        have rest: "build_prices_loop e processed2 step end_d (d + step) acc = (None, acc)"
          by (rule less.hyps [OF smaller first less.prems(2)])
        from build_prices_loop_effect [OF first] have "d \<in> set new_days'" by auto
        with less.prems(2) have "(if d \<in> set processed2 then None else day_frame e d) = None"
          by auto
        with True rest show ?thesis
          unfolding acc by (subst build_prices_loop_unfold) simp
      qed
    qed
  qed
qed

lemma build_prices_Returned:
  assumes "build_prices e s start_d end_d step = Some (Returned (prices_df, new_days), s1)"
  shows "\<not> (start_d \<le> end_d \<and> step \<le> 0)"
    and "\<exists>fs. build_prices_loop e (processed_days s) step end_d start_d ([], [], s)
            = (None, fs, new_days, s1)"
    and "processed_days s1 = processed_days s @ new_days"
proof -
  show 1: "\<not> (start_d \<le> end_d \<and> step \<le> 0)"
    using assms by (auto simp: build_prices_def split: if_splits)
  show 2: "\<exists>fs. build_prices_loop e (processed_days s) step end_d start_d ([], [], s)
            = (None, fs, new_days, s1)"
    using assms by (auto simp: build_prices_def split: if_splits prod.splits option.splits)
  then obtain fs where "build_prices_loop e (processed_days s) step end_d start_d ([], [], s)
            = (None, fs, new_days, s1)" by blast
  from build_prices_loop_effect [OF this] show "processed_days s1 = processed_days s @ new_days"
    by auto
qed

lemma build_prices_rerun:
  assumes "build_prices e s start_d end_d step = Some (Returned (prices_df, new_days), s1)"
    and "processed_days s2 = processed_days s1"
  shows "build_prices e s2 start_d end_d step = Some (Returned ([], []), s2)"
proof -
  from build_prices_Returned [OF assms(1)] obtain fs where
    go: "\<not> (start_d \<le> end_d \<and> step \<le> 0)"
    and loop: "build_prices_loop e (processed_days s) step end_d start_d ([], [], s)
            = (None, fs, new_days, s1)"
    and pd: "processed_days s1 = processed_days s @ new_days"
    by blast
  have "set (processed_days s) \<union> set new_days \<subseteq> set (processed_days s2)"
    by (simp add: assms(2) pd)
  from build_prices_loop_rerun [OF loop this] have
    "build_prices_loop e (processed_days s2) step end_d start_d ([], [], s2) = (None, [], [], s2)" .
  with go show ?thesis by (simp add: build_prices_def)
qed

text \<open>
  Claim C4. When a run of the pipeline has returned, a second run with the same
  arguments against the same remote source returns at once (there is no new day) and
  leaves the base directory as the first run left it: the raw and the enriched
  partitions, the groups and products caches, the rollup and the tracking files.
\<close>

theorem second_run_changes_nothing:
  assumes "main e a s = Some (Returned n, s1)"
  shows "main e a s1 = Some (Returned 0, s1)
     \<and> daily_prices (snd (the (main e a s1))) = daily_prices s1
     \<and> daily (snd (the (main e a s1))) = daily s1
     \<and> groups_file (snd (the (main e a s1))) = groups_file s1
     \<and> products_file (snd (the (main e a s1))) = products_file s1
     \<and> full_file (snd (the (main e a s1))) = full_file s1"
proof -
  from assms obtain prices_df new_days sA where
    bp: "build_prices e s (start_date a) (end_date a) (interval a)
           = Some (Returned (prices_df, new_days), sA)"
    and rest: "(new_days = [] \<and> s1 = sA) \<or> (\<exists>r. stages_2_to_5 e a new_days sA = (r, s1))"
    by (auto simp: main_def split: option.splits outcome.splits prod.splits if_splits)
  have "processed_days s1 = processed_days sA"
    using rest stages_2_to_5_effect by blast
  from build_prices_rerun [OF bp this] have
    "main e a s1 = Some (Returned 0, s1)" by (simp add: main_def)
  then show ?thesis by simp
qed

text \<open>
  Claim C10. Whenever \<^verbatim>\<open>main\<close> ends with a rollup file other than the one it started
  with, the \<^verbatim>\<open>--full-file\<close> flag was set and the new rollup is what the full rebuild
  writes: the plain concatenation of every enriched partition on disk, in listing
  order. It is never the prior rollup with the new days appended and deduplicated,
  which is what \<^verbatim>\<open>append_to_full_file\<close> would write from the list of new days.
\<close>

theorem main_rollup_by_full_rebuild:
  assumes "main e a s = Some (r, s')"
  shows "full_file s' = full_file s
     \<or> (full_file_flag a \<and> daily s' \<noteq> []
         \<and> full_file s' = Parquet (concat (map snd (daily s'))))"
proof -
  from assms obtain x sA where
    bp: "build_prices e s (start_date a) (end_date a) (interval a) = Some (x, sA)"
    and rest: "s' = sA \<or> (\<exists>new_days. stages_2_to_5 e a new_days sA = (r, s'))"
    by (auto simp: main_def split: option.splits outcome.splits prod.splits if_splits)
  obtain err fs ns where
    "build_prices_loop e (processed_days s) (interval a) (end_date a) (start_date a) ([], [], s)
       = (err, fs, ns, sA)"
    using bp by (auto simp: build_prices_def split: if_splits prod.splits option.splits)
  from build_prices_loop_effect [OF this] have keep: "full_file sA = full_file s" by blast
  from rest show ?thesis
  proof
    assume "s' = sA"
    with keep show ?thesis by simp
  next
    assume "\<exists>new_days. stages_2_to_5 e a new_days sA = (r, s')"
    then obtain new_days where "stages_2_to_5 e a new_days sA = (r, s')" by blast
    from stages_2_to_5_effect [OF this] keep show ?thesis by auto
  qed
qed

section \<open>A run on concrete inputs\<close>

lemma ex_fetch_groups: "fetch_groups ex_env \<noteq> None"
  by (simp add: fetch_groups_def ex_env_def Let_def)

lemma ex_groups_ids: "map (\<lambda>r. r ''group_id'') ex_groups_df = [Some (IntC 604)]"
  by code_simp

lemma ex_groups_has_id: "has_column ''group_id'' ex_groups_df"
  by code_simp

lemma ex_groups_group_ids: "group_ids ex_groups_df = [''604'']"
proof -
  have "map (\<lambda>r. astype_str (r ''group_id'')) ex_groups_df
      = map astype_str (map (\<lambda>r. r ''group_id'') ex_groups_df)" by simp
  then show ?thesis
    by (simp add: group_ids_def unique_def ex_groups_ids str_604)
qed


lemma build_products_and_groups_fetched:
  assumes "load_groups e s = Returned (g, s1)" and "has_column ''group_id'' g"
    and "products_loop e (processed_products s1) (group_ids g) ([], s1) = (all_products, s2)"
    and "all_products \<noteq> []"
  shows "build_products_and_groups e s =
     (Returned (rename_column ''group_id'' ''groupid'' g,
                drop_duplicates id
                  (rename_column ''group_id'' ''groupid'' (cached_products s2 @ concat all_products))),
      s2\<lparr> products_file := Some (cached_products s2 @ concat all_products) \<rparr>)"
  using assms
  by (simp add: build_products_and_groups_def Let_def cached_products_def split: option.splits)

lemma stages_2_to_5_finished:
  assumes "build_products_and_groups e s1 = (Returned (g, p), s2)"
    and "has_column ''groupid'' p" and "has_column ''groupid'' g"
    and "merge_loop (drop_prune_cols (astype_str_column ''groupid'' p))
           (drop_prune_cols (astype_str_column ''groupid'' g)) new_days (0, s2) = (None, tot, s3)"
    and "stage4 (full_file_flag a) s3 = (Returned (), s4)"
  shows "stages_2_to_5 e a new_days s1 = (Returned 0, prune_old_daily_prices 7 s4)"
  using assms by (simp add: stages_2_to_5_def Let_def)

lemma ex_load_groups0:
  "groups_file s = None \<Longrightarrow>
   load_groups ex_env s = Returned (ex_groups_df, s\<lparr> groups_file := Some ex_groups_df \<rparr>)"
  using ex_fetch_groups by (auto simp: load_groups_def ex_groups_df_def)

lemma ex_products_loop0:
  "''604'' \<notin> set processed \<Longrightarrow>
   products_loop ex_env processed [''604''] ([], s)
     = ([ex_cache], s\<lparr> processed_products := processed_products s @ [''604''] \<rparr>)"
  using ex_fetch_not_empty by (simp add: ex_env_def ex_cache_def Let_def)

lemma ex_build_products_and_groups:
  assumes "groups_file s = None" "products_file s = None" "processed_products s = []"
  shows "build_products_and_groups ex_env s =
     (Returned (rename_column ''group_id'' ''groupid'' ex_groups_df,
                drop_duplicates id (rename_column ''group_id'' ''groupid'' ex_cache)),
      s\<lparr> groups_file := Some ex_groups_df, processed_products := [''604''],
         products_file := Some ex_cache \<rparr>)"
proof -
  let ?s1 = "s\<lparr> groups_file := Some ex_groups_df \<rparr>"
  let ?s2 = "?s1\<lparr> processed_products := processed_products ?s1 @ [''604''] \<rparr>"
  have l: "load_groups ex_env s = Returned (ex_groups_df, ?s1)"
    using assms(1) by (rule ex_load_groups0)
  have "''604'' \<notin> set (processed_products ?s1)" using assms(3) by simp
  from ex_products_loop0 [OF this, of ?s1] have pl:
    "products_loop ex_env (processed_products ?s1) (group_ids ex_groups_df) ([], ?s1)
       = ([ex_cache], ?s2)"
    by (simp only: ex_groups_group_ids)
  have ne: "[ex_cache] \<noteq> []" by simp
  from build_products_and_groups_fetched [OF l ex_groups_has_id pl ne] show ?thesis
    using assms(2,3) by (simp add: cached_products_def)
qed

lemma ex_cache_group_id: "\<exists>r. ex_cache = [r] \<and> r ''group_id'' = Some (StrC ''604'')"
  by (simp add: ex_cache_def set_column_def ex_fetch_single)

lemma ex_products_has_groupid:
  "has_column ''groupid'' (drop_duplicates id (rename_column ''group_id'' ''groupid'' ex_cache))"
proof -
  from ex_cache_group_id obtain r where r: "ex_cache = [r]" "r ''group_id'' = Some (StrC ''604'')"
    by blast
  show ?thesis
    by (simp add: r rename_column_def has_column_def rename_row_def)
qed

lemma ex_groups_has_groupid:
  "has_column ''groupid'' (rename_column ''group_id'' ''groupid'' ex_groups_df)"
proof -
  from ex_groups_ids obtain r where r: "ex_groups_df = [r]" "r ''group_id'' = Some (IntC 604)"
    by (cases ex_groups_df) auto
  show ?thesis
    by (simp add: r rename_column_def has_column_def rename_row_def)
qed


text \<open>The key columns of the example tables.\<close>

lemma has_column_drop_prune_cols:
  "c \<notin> PRUNE_COLS \<Longrightarrow> has_column c (drop_prune_cols df) = has_column c df"
  by (simp add: has_column_def drop_prune_cols_def prune_row_def)

lemma has_column_astype_same: "has_column c (astype_str_column c df) = (df \<noteq> [])"
  by (cases df) (auto simp: has_column_def astype_str_column_def)

lemma has_column_astype_other:
  "c \<noteq> c' \<Longrightarrow> has_column c (astype_str_column c' df) = has_column c df"
  by (simp add: has_column_def astype_str_column_def)

lemma has_column_drop_duplicates_id: "has_column c (drop_duplicates id df) = has_column c df"
  using keys_drop_duplicates [of id df] by (simp add: has_column_def)

lemma has_column_rename_other:
  "c \<noteq> old \<Longrightarrow> c \<noteq> new \<Longrightarrow> has_column c (rename_column old new df) = has_column c df"
  by (auto simp: has_column_def rename_column_def rename_row_def split: if_splits)

lemma not_pruned: "''groupid'' \<notin> PRUNE_COLS" "''product_id'' \<notin> PRUNE_COLS"
  by (simp_all add: PRUNE_COLS_def)

lemma ex_raw5_columns:
  "has_column ''groupid'' ex_raw5 \<and> has_column ''product_id'' ex_raw5
   \<and> has_column ''date'' ex_raw5 \<and> has_column ''sub_type_name'' ex_raw5"
  by code_simp

lemma ex_cache_product_id: "has_column ''product_id'' ex_cache"
  by code_simp

lemma ex_cache_nonempty: "ex_cache \<noteq> []"
  using ex_cache_group_id by auto

lemma ex_groups_df_nonempty: "ex_groups_df \<noteq> []"
  using ex_groups_has_id by (auto simp: has_column_def)

lemma ex_products_merge_columns:
  "has_column ''groupid'' ex_products_merge \<and> has_column ''product_id'' ex_products_merge"
proof -
  have "drop_duplicates id (rename_column ''group_id'' ''groupid'' ex_cache) \<noteq> []"
    using ex_products_has_groupid by (auto simp: has_column_def)
  then show ?thesis
    by (simp add: ex_products_merge_def has_column_drop_prune_cols not_pruned
        has_column_astype_same has_column_astype_other has_column_drop_duplicates_id
        has_column_rename_other ex_cache_product_id)
qed

lemma ex_groups_merge_columns: "has_column ''groupid'' ex_groups_merge"
proof -
  have "rename_column ''group_id'' ''groupid'' ex_groups_df \<noteq> []"
    using ex_groups_has_groupid by (auto simp: has_column_def)
  then show ?thesis
    by (simp add: ex_groups_merge_def has_column_drop_prune_cols not_pruned has_column_astype_same)
qed

lemma ex_merge_day:
  "merge_day ex_raw5 ex_products_merge ex_groups_merge = Returned ex_enriched5"
proof -
  have "\<exists>E. merge_day ex_raw5 ex_products_merge ex_groups_merge = Returned E"
    unfolding merge_day_returns_iff
    using ex_raw5_columns ex_products_merge_columns ex_groups_merge_columns by simp
  then show ?thesis by (auto simp: ex_enriched5_def dest: merge_day_Returned)
qed

lemma ex_merge_loop:
  assumes "daily_prices s = [(5, ex_raw5)]" "daily s = []"
  shows "merge_loop ex_products_merge ex_groups_merge [5] (0, s)
     = (None, length ex_enriched5, s\<lparr> daily := [(5, ex_enriched5)] \<rparr>)"
  using assms by (simp add: ex_merge_day)

lemma ex_raw5_ok: "raw_partition_ok 5 ex_raw5"
  using day_frame_raw_partition_ok [OF ex_day_frame_5] .

lemma ex_enriched5_ok: "partition_ok 5 ex_enriched5"
  unfolding ex_enriched5_def using ex_raw5_ok by (rule merged_rows_partition_ok)

lemma ex_enriched5_dates: "date_values ex_enriched5 = {Some (DayC 5)}"
proof -
  from ex_enriched5_ok have ne: "ex_enriched5 \<noteq> []"
    and d: "\<forall>m \<in> set ex_enriched5. fact m ''date'' = Some (DayC 5)"
    by (simp_all add: partition_ok_def)
  from ne have "hd ex_enriched5 \<in> set ex_enriched5" by simp
  with d show ?thesis unfolding date_values_def by force
qed

lemma ex_prune:
  "daily_prices s = [(5, ex_raw5)] \<Longrightarrow> prune_old_daily_prices 7 s = s"
  by (simp add: prune_old_daily_prices_def slice_to_def Let_def)

lemma ex_stage4:
  assumes "daily s = [(5, ex_enriched5)]" "full_file s = NoFile \<or> full_file s = Parquet ex_partition6"
  shows "stage4 True s = (Returned (), s\<lparr> full_file := Parquet ex_enriched5 \<rparr>)"
proof -
  have "\<not> rollup_up_to_date s"
    using assms by (auto simp: rollup_up_to_date_def partition_dates_def ex_partition6_dates)
  with assms(1) show ?thesis by (simp add: stage4_def build_full_file_unfold)
qed

lemma ex_build_prices_R:
  "build_prices ex_env (ex_disk0\<lparr> full_file := R \<rparr>) 4 5 1
     = Some (Returned (ex_raw5, [5]), ex_disk1\<lparr> full_file := R \<rparr>)"
proof -
  let ?s = "ex_disk0\<lparr> full_file := R \<rparr>"
  have p: "processed_days ?s = []" by (simp add: ex_disk0_def)
  have w: "raw_write_ok ex_env 5" by (simp add: ex_env_def)
  have "build_prices_loop ex_env [] 1 5 4 ([], [], ?s)
      = build_prices_loop ex_env [] 1 5 5 ([], [], ?s)"
    by (subst build_prices_loop_unfold) (simp add: ex_day_frame_4)
  also have "\<dots> = build_prices_loop ex_env [] 1 5 6 ([ex_raw5], [5], ex_disk1\<lparr> full_file := R \<rparr>)"
    by (subst build_prices_loop_unfold) (simp add: ex_day_frame_5 w ex_disk1_def ex_disk0_def)
  also have "\<dots> = (None, [ex_raw5], [5], ex_disk1\<lparr> full_file := R \<rparr>)"
    by (rule build_prices_loop_stop) simp
  finally show ?thesis by (simp add: build_prices_def p)
qed

lemma ex_stages:
  assumes "R = NoFile \<or> R = Parquet ex_partition6"
  shows "stages_2_to_5 ex_env ex_args [5] (ex_disk1\<lparr> full_file := R \<rparr>) = (Returned 0, ex_final)"
proof -
  let ?s1 = "ex_disk1\<lparr> full_file := R \<rparr>"
  let ?s2 = "?s1\<lparr> groups_file := Some ex_groups_df, processed_products := [''604''],
         products_file := Some ex_cache \<rparr>"
  let ?s3 = "?s2\<lparr> daily := [(5, ex_enriched5)] \<rparr>"
  let ?s4 = "?s3\<lparr> full_file := Parquet ex_enriched5 \<rparr>"
  have b: "build_products_and_groups ex_env ?s1 =
     (Returned (rename_column ''group_id'' ''groupid'' ex_groups_df,
                drop_duplicates id (rename_column ''group_id'' ''groupid'' ex_cache)), ?s2)"
    by (rule ex_build_products_and_groups) (simp_all add: ex_disk1_def ex_disk0_def)
  have "merge_loop ex_products_merge ex_groups_merge [5] (0, ?s2)
     = (None, length ex_enriched5, ?s3)"
    by (rule ex_merge_loop) (simp_all add: ex_disk1_def ex_disk0_def)
  then have m: "merge_loop
      (drop_prune_cols (astype_str_column ''groupid''
         (drop_duplicates id (rename_column ''group_id'' ''groupid'' ex_cache))))
      (drop_prune_cols (astype_str_column ''groupid''
         (rename_column ''group_id'' ''groupid'' ex_groups_df))) [5] (0, ?s2)
     = (None, length ex_enriched5, ?s3)"
    by (simp only: ex_products_merge_def ex_groups_merge_def)
  have "stage4 True ?s3 = (Returned (), ?s4)"
    by (rule ex_stage4) (use assms in \<open>auto simp: ex_disk1_def ex_disk0_def\<close>)
  then have r: "stage4 (full_file_flag ex_args) ?s3 = (Returned (), ?s4)"
    by (simp add: ex_args_def)
  have p: "prune_old_daily_prices 7 ?s4 = ?s4"
    by (rule ex_prune) (simp add: ex_disk1_def ex_disk0_def)
  have f: "?s4 = ex_final"
    by (simp add: ex_final_def ex_disk1_def ex_disk0_def)
  from stages_2_to_5_finished [OF b ex_products_has_groupid ex_groups_has_groupid m r]
  have "stages_2_to_5 ex_env ex_args [5] ?s1 = (Returned 0, ?s4)" by (simp only: p)
  then show ?thesis by (simp only: f)
qed

lemma ex_main:
  assumes "R = NoFile \<or> R = Parquet ex_partition6"
  shows "main ex_env ex_args (ex_disk0\<lparr> full_file := R \<rparr>) = Some (Returned 0, ex_final)"
proof -
  have "build_prices ex_env (ex_disk0\<lparr> full_file := R \<rparr>)
          (start_date ex_args) (end_date ex_args) (interval ex_args)
     = Some (Returned (ex_raw5, [5]), ex_disk1\<lparr> full_file := R \<rparr>)"
    using ex_build_prices_R [of R] by (simp add: ex_args_def)
  then show ?thesis by (simp add: main_def ex_stages [OF assms])
qed

lemma ex_main_empty: "main ex_env ex_args ex_disk0 = Some (Returned 0, ex_final)"
proof -
  have "ex_disk0\<lparr> full_file := NoFile \<rparr> = ex_disk0" by (simp add: ex_disk0_def)
  with ex_main [of NoFile] show ?thesis by simp
qed

lemma ex_main_stale: "main ex_env ex_args ex_disk_stale = Some (Returned 0, ex_final)"
  using ex_main [of "Parquet ex_partition6"] by (simp add: ex_disk_stale_def)

theorem second_run_changes_nothing_witness:
  "main ex_env ex_args ex_disk0 = Some (Returned 0, ex_final)
   \<and> main ex_env ex_args ex_final = Some (Returned 0, ex_final)
   \<and> processed_days ex_final = [5]
   \<and> daily ex_final = [(5, ex_enriched5)]
   \<and> full_file ex_final = Parquet ex_enriched5"
proof -
  from second_run_changes_nothing [OF ex_main_empty]
  have "main ex_env ex_args ex_final = Some (Returned 0, ex_final)" by blast
  with ex_main_empty show ?thesis by (simp add: ex_final_def)
qed

lemma ex_rollups_differ: "Parquet ex_enriched5 \<noteq> Parquet ex_partition6"
proof
  assume "Parquet ex_enriched5 = Parquet ex_partition6"
  then have "date_values ex_enriched5 = date_values ex_partition6" by simp
  then show False by (simp add: ex_enriched5_dates ex_partition6_dates)
qed

lemma ex_append_instead:
  "full_file (snd (append_to_full_file (ex_final\<lparr> full_file := Parquet ex_partition6 \<rparr>) [5]))
     \<noteq> Parquet ex_enriched5"
proof
  let ?s3 = "ex_final\<lparr> full_file := Parquet ex_partition6 \<rparr>"
  let ?new = "List.map_filter (\<lambda>d. map_of (daily ?s3) d) [5]"
  assume eq: "full_file (snd (append_to_full_file ?s3 [5])) = Parquet ex_enriched5"
  have new: "?new = [ex_enriched5]"
    by (simp add: ex_final_def List.map_filter_def)
  have old: "full_file ?s3 = Parquet ex_partition6" by simp
  have ne: "?new \<noteq> []" by (simp only: new) simp
  from append_to_full_file_Parquet [OF old ne] eq
  have "drop_duplicates dedup_key (ex_partition6 @ concat ?new) = ex_enriched5" by simp
  then have "date_values (drop_duplicates dedup_key (ex_partition6 @ concat ?new))
      = date_values ex_enriched5" by simp
  then have "date_values ex_partition6 \<union> date_values (concat ?new) = date_values ex_enriched5"
    by (simp only: date_values_drop_duplicates date_values_append)
  then show False
    by (simp only: new) (simp add: ex_enriched5_dates ex_partition6_dates)
qed

theorem main_rollup_by_full_rebuild_witness:
  "main ex_env ex_args ex_disk_stale = Some (Returned 0, ex_final)
   \<and> full_file ex_final \<noteq> full_file ex_disk_stale
   \<and> full_file_flag ex_args
   \<and> daily ex_final \<noteq> []
   \<and> full_file ex_final = Parquet (concat (map snd (daily ex_final)))
   \<and> full_file (snd (append_to_full_file (ex_final\<lparr> full_file := full_file ex_disk_stale \<rparr>) [5]))
       \<noteq> full_file ex_final"
proof -
  have stale: "full_file ex_disk_stale = Parquet ex_partition6"
    by (simp add: ex_disk_stale_def)
  have final: "full_file ex_final = Parquet ex_enriched5" by (simp add: ex_final_def)
  have changed: "full_file ex_final \<noteq> full_file ex_disk_stale"
    using ex_rollups_differ by (simp add: stale final)
  from main_rollup_by_full_rebuild [OF ex_main_stale] changed
  have "full_file_flag ex_args \<and> daily ex_final \<noteq> []
         \<and> full_file ex_final = Parquet (concat (map snd (daily ex_final)))"
    by blast
  moreover have "full_file (snd (append_to_full_file (ex_final\<lparr> full_file := full_file ex_disk_stale \<rparr>) [5]))
       \<noteq> full_file ex_final"
    using ex_append_instead by (simp add: stale final)
  ultimately show ?thesis using ex_main_stale changed by blast
qed

section \<open>The base directory stays well formed\<close>

lemma set_update_cases:
  "f \<in> set (AList.update k v al) \<Longrightarrow> f = (k, v) \<or> f \<in> set al"
  by (induction al) (auto split: if_splits)

lemma daily_ok_update:
  assumes "daily_ok fs" and "partition_ok d df"
  shows "daily_ok (AList.update d df fs)"
proof -
  from assms(1) have "distinct (map fst (AList.update d df fs))"
    by (simp add: daily_ok_def distinct_update)
  moreover have "partition_ok (fst f) (snd f)" if "f \<in> set (AList.update d df fs)" for f
    using set_update_cases [OF that] assms by (auto simp: daily_ok_def)
  ultimately show ?thesis by (simp add: daily_ok_def)
qed

text \<open>Stage 3 finds the raw partition of every new day and leaves enriched partitions
  for all of them.\<close>

lemma merge_loop_ok:
  assumes "\<forall>d \<in> set days. \<exists>df. map_of (daily_prices s) d = Some df \<and> raw_partition_ok d df"
    and "daily_ok (daily s)"
    and "merge_loop products_df groups_df days (tot, s) = (err, tot', s')"
  shows "(err = None \<or> (\<exists>c. err = Some (KeyError c))) \<and> daily_ok (daily s')
     \<and> (err = None \<longrightarrow> set days \<subseteq> fst ` set (daily s'))
     \<and> fst ` set (daily s) \<subseteq> fst ` set (daily s')"
  using assms
proof (induction days arbitrary: tot s)
  case Nil
  then show ?case by simp
next
  case (Cons d days)
  from Cons.prems(1) obtain day_prices where
    dp: "map_of (daily_prices s) d = Some day_prices" "raw_partition_ok d day_prices"
    by auto
  show ?case
  proof (cases "merge_day day_prices products_df groups_df")
    case (Raised er)
    with Cons.prems(3) dp(1) have "err = Some er" "s' = s" by simp_all
    moreover from Raised obtain c where "er = KeyError c" by (auto dest: merge_day_Raised)
    ultimately show ?thesis using Cons.prems(2) by simp
  next
    case (Returned E)
    then have E: "E = merged_rows day_prices products_df groups_df" by (rule merge_day_Returned)
    let ?s1 = "s\<lparr> daily := AList.update d E (daily s) \<rparr>"
    from Cons.prems(3) dp(1) Returned have run:
      "merge_loop products_df groups_df days (tot + length E, ?s1) = (err, tot', s')"
      by simp
    have raw: "\<forall>d \<in> set days. \<exists>df. map_of (daily_prices ?s1) d = Some df \<and> raw_partition_ok d df"
      using Cons.prems(1) by simp
    have ok: "daily_ok (daily ?s1)"
      using daily_ok_update [OF Cons.prems(2) merged_rows_partition_ok [OF dp(2)]] E by simp
    from Cons.IH [OF raw ok run] have ih: "err = None \<or> (\<exists>c. err = Some (KeyError c))"
      "daily_ok (daily s')" "err = None \<longrightarrow> set days \<subseteq> fst ` set (daily s')"
      "fst ` set (daily ?s1) \<subseteq> fst ` set (daily s')"
      by blast+
    have "fst ` set (daily ?s1) = insert d (fst ` set (daily s))"
      by (simp add: dom_update)
    with ih show ?thesis by auto
  qed
qed

lemma build_prices_loop_distinct:
  assumes "build_prices_loop e processed step end_d d (all_frames, new_days, s)
             = (err, all_frames', new_days', s')"
    and "distinct (map fst (daily_prices s))"
  shows "distinct (map fst (daily_prices s'))"
  using assms
proof (induction "nat (end_d + 1 - d)" arbitrary: d all_frames new_days s rule: less_induct)
  case less
  show ?case
  proof (cases "d \<le> end_d \<and> 0 < step")
    case False
    with less.prems show ?thesis by (simp add: build_prices_loop_stop)
  next
    case True
    then have smaller: "nat (end_d + 1 - (d + step)) < nat (end_d + 1 - d)" by simp
    show ?thesis
    proof (cases "if d \<in> set processed then None else day_frame e d")
      case None
      with True less.prems(1) have
        "build_prices_loop e processed step end_d (d + step) (all_frames, new_days, s)
           = (err, all_frames', new_days', s')"
        by (simp add: build_prices_loop_unfold [of e processed step end_d d])
      from less.hyps [OF smaller this less.prems(2)] show ?thesis .
    next
      case (Some df)
      show ?thesis
      proof (cases "raw_write_ok e d")
        case False
        with True Some less.prems show ?thesis
          by (simp add: build_prices_loop_unfold [of e processed step end_d d])
      next
        case ok: True
        let ?s1 = "s\<lparr> daily_prices := AList.update d df (daily_prices s),
                       processed_days := processed_days s @ [d] \<rparr>"
        from True Some ok less.prems(1) have run:
          "build_prices_loop e processed step end_d (d + step)
             (all_frames @ [df], new_days @ [d], ?s1) = (err, all_frames', new_days', s')"
          by (simp add: build_prices_loop_unfold [of e processed step end_d d])
        have "distinct (map fst (daily_prices ?s1))"
          using less.prems(2) by (simp add: distinct_update)
        from less.hyps [OF smaller run this] show ?thesis .
      qed
    qed
  qed
qed

text \<open>What the Fact Harvester hands to the later stages.\<close>

lemma build_prices_new_days:
  assumes "build_prices e s start_d end_d step = Some (Returned (prices_df, new_days), s1)"
  shows "\<forall>d \<in> set new_days. \<exists>df. map_of (daily_prices s1) d = Some df \<and> raw_partition_ok d df"
    and "daily s1 = daily s" and "full_file s1 = full_file s"
    and "distinct (map fst (daily_prices s)) \<longrightarrow> distinct (map fst (daily_prices s1))"
proof -
  from build_prices_Returned(2) [OF assms] obtain fs where loop:
    "build_prices_loop e (processed_days s) step end_d start_d ([], [], s) = (None, fs, new_days, s1)"
    by blast
  from build_prices_loop_effect [OF loop] have
    eff: "\<forall>x \<in> set new_days. day_frame e x \<noteq> None \<and> map_of (daily_prices s1) x = day_frame e x"
    and keep: "daily s1 = daily s" "full_file s1 = full_file s"
    by auto
  show "\<forall>d \<in> set new_days. \<exists>df. map_of (daily_prices s1) d = Some df \<and> raw_partition_ok d df"
  proof
    fix d assume "d \<in> set new_days"
    with eff obtain df where "day_frame e d = Some df" "map_of (daily_prices s1) d = Some df"
      by auto
    with day_frame_raw_partition_ok show "\<exists>df. map_of (daily_prices s1) d = Some df \<and> raw_partition_ok d df"
      by blast
  qed
  show "daily s1 = daily s" "full_file s1 = full_file s" by (rule keep)+
  show "distinct (map fst (daily_prices s)) \<longrightarrow> distinct (map fst (daily_prices s1))"
    using build_prices_loop_distinct [OF loop] by blast
qed

lemma prune_distinct:
  "distinct (map fst (daily_prices s)) \<Longrightarrow>
   distinct (map fst (daily_prices (prune_old_daily_prices k s)))"
  by (simp add: prune_old_daily_prices_def Let_def fold_delete_filter distinct_map_filter)

lemma stage4_raises:
  "stage4 flag s = (Raised err, s') \<Longrightarrow> err = ValueError \<and> daily s = []"
  by (auto simp: stage4_def build_full_file_unfold split: if_splits)

lemma stage4_rollup_ok:
  assumes "stage4 flag s = (r, s')" and "daily_ok (daily s)"
    and "case full_file s of Parquet df \<Rightarrow> distinct (map dedup_key df) | _ \<Rightarrow> True"
  shows "case full_file s' of Parquet df \<Rightarrow> distinct (map dedup_key df) | _ \<Rightarrow> True"
  using stage4_rollup [OF assms(1)] assms(2,3)
  by (auto simp: distinct_rollup_of_daily_ok)

text \<open>
  Stages 2 to 5 on what the Fact Harvester leaves: every new day has its raw partition,
  so stage 3 finds them all, and stage 4 finds at least one enriched partition. The
  only exceptions are those of the Dimension Builder and of the key columns.
\<close>

lemma stages_2_to_5_ok:
  assumes run: "stages_2_to_5 e a new_days s1 = (r, s')"
    and new: "new_days \<noteq> []"
    and raw: "\<forall>d \<in> set new_days. \<exists>df. map_of (daily_prices s1) d = Some df \<and> raw_partition_ok d df"
    and ok: "disk_ok s1"
  shows "disk_ok s' \<and> (r = Returned 0 \<or> r = Raised FetchFailed \<or> (\<exists>c. r = Raised (KeyError c)))"
  using run
proof (cases rule: stages_2_to_5_cases)
  case (dimensions r2 err)
  from build_products_and_groups_fields [OF dimensions(1)] ok have "disk_ok s'"
    by (simp add: disk_ok_def)
  with dimensions(2,3) show ?thesis by auto
next
  case (merge r2 s2 products_df groups_df err tot)
  note f2 = build_products_and_groups_fields [OF merge(1)]
  from raw f2 have raw2:
    "\<forall>d \<in> set new_days. \<exists>df. map_of (daily_prices s2) d = Some df \<and> raw_partition_ok d df"
    by simp
  from ok f2 have "daily_ok (daily s2)" by (simp add: disk_ok_def)
  from merge_loop_ok [OF raw2 this merge(2)] have "daily_ok (daily s')" "\<exists>c. err = KeyError c"
    by simp_all
  moreover from ok f2 merge_loop_fields [OF merge(2)] have
    "distinct (map fst (daily_prices s'))"
    "case full_file s' of Parquet df \<Rightarrow> distinct (map dedup_key df) | _ \<Rightarrow> True"
    by (simp_all add: disk_ok_def)
  ultimately show ?thesis using merge(3) by (auto simp: disk_ok_def)
next
  case (rollup r2 s2 products_df groups_df tot s3 err)
  note f2 = build_products_and_groups_fields [OF rollup(1)]
  from raw f2 have raw2:
    "\<forall>d \<in> set new_days. \<exists>df. map_of (daily_prices s2) d = Some df \<and> raw_partition_ok d df"
    by simp
  from ok f2 have "daily_ok (daily s2)" by (simp add: disk_ok_def)
  from merge_loop_ok [OF raw2 this rollup(2)] have "set new_days \<subseteq> fst ` set (daily s3)" by simp
  with new have "daily s3 \<noteq> []" by (cases new_days) auto
  with stage4_raises [OF rollup(3)] show ?thesis by simp
next
  case (finished r2 s2 products_df groups_df tot s3 s4)
  note f2 = build_products_and_groups_fields [OF finished(1)]
  note f3 = merge_loop_fields [OF finished(2)]
  note f4 = stage4_fields [OF finished(3)]
  from raw f2 have raw2:
    "\<forall>d \<in> set new_days. \<exists>df. map_of (daily_prices s2) d = Some df \<and> raw_partition_ok d df"
    by simp
  from ok f2 have d2: "daily_ok (daily s2)" by (simp add: disk_ok_def)
  from merge_loop_ok [OF raw2 d2 finished(2)] have d3: "daily_ok (daily s3)" by simp
  from ok f2 f3 have "case full_file s3 of Parquet df \<Rightarrow> distinct (map dedup_key df) | _ \<Rightarrow> True"
    by (simp add: disk_ok_def)
  from stage4_rollup_ok [OF finished(3) d3 this] have
    r4: "case full_file s4 of Parquet df \<Rightarrow> distinct (map dedup_key df) | _ \<Rightarrow> True" .
  from ok f2 f3 f4 have "distinct (map fst (daily_prices s4))" by (simp add: disk_ok_def)
  then have "distinct (map fst (daily_prices s'))"
    unfolding finished(4) by (rule prune_distinct)
  with d3 f4 r4 have "disk_ok s'"
    by (simp add: disk_ok_def finished(4) prune_other_fields)
  with finished(5) show ?thesis by simp
qed

text \<open>
  Runs of \<^verbatim>\<open>main\<close> keep the base directory well formed, from the empty directory on.
  A run that returns with an exception does so for a failed partition write, a failed
  fetch of the groups, or a missing key column; the full rebuild inside \<^verbatim>\<open>main\<close>
  always has an enriched partition to read.
\<close>

lemma main_preserves_disk_ok:
  assumes "main e a s = Some (r, s')" and "disk_ok s"
  shows "disk_ok s'"
    and "r = Returned 0 \<or> r = Raised WriteFailed \<or> r = Raised FetchFailed
         \<or> (\<exists>c. r = Raised (KeyError c))"
proof -
  obtain x sA where
    bp: "build_prices e s (start_date a) (end_date a) (interval a) = Some (x, sA)"
    using assms(1) by (auto simp: main_def split: option.splits)
  obtain err fs ns where loop:
    "build_prices_loop e (processed_days s) (interval a) (end_date a) (start_date a) ([], [], s)
       = (err, fs, ns, sA)"
    and x: "(err = None \<and> x = Returned (concat fs, ns)) \<or> (\<exists>er. err = Some er \<and> x = Raised er)"
    using bp by (auto simp: build_prices_def split: if_splits prod.splits option.splits)
  from build_prices_loop_effect [OF loop] have keep: "daily sA = daily s" "full_file sA = full_file s"
    by auto
  from build_prices_loop_distinct [OF loop] assms(2) have "distinct (map fst (daily_prices sA))"
    by (simp add: disk_ok_def)
  with keep assms(2) have okA: "disk_ok sA" by (simp add: disk_ok_def)
  have "disk_ok s' \<and> (r = Returned 0 \<or> r = Raised WriteFailed \<or> r = Raised FetchFailed
         \<or> (\<exists>c. r = Raised (KeyError c)))"
  proof (cases x)
    case (Raised er)
    with x loop have "er = WriteFailed"
      by (auto dest: build_prices_loop_raises)
    with Raised bp assms(1) okA show ?thesis by (simp add: main_def)
  next
    case (Returned pn)
    obtain prices_df new_days where pn: "pn = (prices_df, new_days)" by (cases pn)
    show ?thesis
    proof (cases "new_days = []")
      case True
      with Returned pn bp assms(1) okA show ?thesis by (simp add: main_def)
    next
      case False
      with Returned pn bp assms(1) have run: "stages_2_to_5 e a new_days sA = (r, s')"
        by (simp add: main_def)
      from build_prices_new_days(1) [OF bp [unfolded Returned pn]]
      have raw: "\<forall>d \<in> set new_days. \<exists>df. map_of (daily_prices sA) d = Some df \<and> raw_partition_ok d df" .
      from stages_2_to_5_ok [OF run False raw okA] show ?thesis by blast
    qed
  qed
  then show "disk_ok s'"
    and "r = Returned 0 \<or> r = Raised WriteFailed \<or> r = Raised FetchFailed
         \<or> (\<exists>c. r = Raised (KeyError c))"
    by blast+
qed

lemma disk_ok_empty: "disk_ok ex_disk0"
  by (simp add: disk_ok_def ex_disk0_def daily_ok_Nil)


text \<open>With a positive step, or a range that is empty, the harvest and the whole run
  return.\<close>

lemma build_prices_returns:
  "0 < step \<or> end_d < start_d \<Longrightarrow> \<exists>res. build_prices e s start_d end_d step = Some res"
  by (auto simp: build_prices_def split: prod.splits option.splits)

lemma main_returns:
  "0 < interval a \<or> end_date a < start_date a \<Longrightarrow> \<exists>res. main e a s = Some res"
proof -
  assume "0 < interval a \<or> end_date a < start_date a"
  from build_prices_returns [OF this] obtain res where
    "build_prices e s (start_date a) (end_date a) (interval a) = Some res" by blast
  then show ?thesis
    by (auto simp: main_def split: prod.splits outcome.splits)
qed

section \<open>A run that ends in the merge\<close>













end
